theory Spec2Isabelle
  imports Main
begin

section \<open>Paths\<close>

text \<open>
  A \<^verbatim>\<open>pathlib.Path\<close> is modelled by its tuple of parts: \<^verbatim>\<open>Path("a/b.apk").parts\<close> is
  \<^verbatim>\<open>('a', 'b.apk')\<close>, \<^verbatim>\<open>Path(".").parts\<close> is \<^verbatim>\<open>()\<close>, and an absolute path starts with
  the part \<^verbatim>\<open>'/'\<close>. POSIX paths are assumed; a root of exactly two slashes is treated as
  one slash.
\<close>

type_synonym path = "string list"

fun split_on :: "char \<Rightarrow> string \<Rightarrow> string list" where
  "split_on c [] = [[]]"
| "split_on c (x # xs) =
     (if x = c then [] # split_on c xs
      else (case split_on c xs of
              [] \<Rightarrow> [[x]]
            | w # ws \<Rightarrow> (x # w) # ws))"

definition is_absolute :: "string \<Rightarrow> bool" where
  "is_absolute s = (take 1 s = ''/'')"

text \<open>\<^verbatim>\<open>Path(s)\<close>: empty segments and \<^verbatim>\<open>.\<close> segments are dropped, \<^verbatim>\<open>..\<close> is kept.\<close>

definition Path :: "string \<Rightarrow> path" where
  "Path s = (if is_absolute s then [''/''] else []) @
            filter (\<lambda>w. w \<noteq> [] \<and> w \<noteq> ''.'') (split_on CHR ''/'' s)"

text \<open>\<^verbatim>\<open>p / s\<close> for a path \<open>p\<close> and a string \<open>s\<close>: an absolute \<open>s\<close> replaces \<open>p\<close>.\<close>

definition joinpath :: "path \<Rightarrow> string \<Rightarrow> path" where
  "joinpath p s = (if is_absolute s then Path s else p @ Path s)"

fun str_join :: "string \<Rightarrow> string list \<Rightarrow> string" where
  "str_join sep [] = []"
| "str_join sep [x] = x"
| "str_join sep (x # y # ys) = x @ sep @ str_join sep (y # ys)"

text \<open>\<^verbatim>\<open>str(p)\<close>.\<close>

definition str_path :: "path \<Rightarrow> string" where
  "str_path p =
     (case p of
        [] \<Rightarrow> ''.''
      | c # cs \<Rightarrow> if c = ''/'' then ''/'' @ str_join ''/'' cs else str_join ''/'' (c # cs))"

text \<open>\<^verbatim>\<open>p.name\<close>: the final part, empty for \<^verbatim>\<open>Path(".")\<close> and for the root.\<close>

definition name :: "path \<Rightarrow> string" where
  "name p = (if p = [] \<or> p = [''/''] then [] else last p)"

text \<open>\<^verbatim>\<open>s.rfind(c)\<close>, with \<open>None\<close> for Python's \<^verbatim>\<open>-1\<close>.\<close>

fun rfind :: "char \<Rightarrow> string \<Rightarrow> nat option" where
  "rfind c [] = None"
| "rfind c (x # xs) =
     (case rfind c xs of
        Some i \<Rightarrow> Some (Suc i)
      | None \<Rightarrow> if x = c then Some 0 else None)"

text \<open>
  \<^verbatim>\<open>p.stem\<close>: the name without its last suffix; a dot counts as the start of a suffix
  only when \<^verbatim>\<open>0 < i < len(name) - 1\<close> for its index \<open>i\<close>.
\<close>

definition stem :: "path \<Rightarrow> string" where
  "stem p =
     (let n = name p in
      case rfind CHR ''.'' n of
        None \<Rightarrow> n
      | Some i \<Rightarrow> if 0 < i \<and> i + 1 < length n then take i n else n)"

section \<open>The patcher object and the compiler command\<close>

text \<open>The fields of an \<^verbatim>\<open>OdexPatcherAdvanced\<close> instance that the methods read.\<close>

record patcher =
  num_threads :: nat
  tmp_dir :: path
  dex2oat_path :: string

text \<open>Lines 111 and 112 of \<^verbatim>\<open>_odex_file\<close>.\<close>

definition oat_output_path :: "patcher \<Rightarrow> path \<Rightarrow> path" where
  "oat_output_path self output_apk_path = joinpath (tmp_dir self) (stem output_apk_path @ ''.oat'')"

definition vdex_output_path :: "patcher \<Rightarrow> path \<Rightarrow> path" where
  "vdex_output_path self output_apk_path = joinpath (tmp_dir self) (stem output_apk_path @ ''.vdex'')"

text \<open>
  Lines 114 to 124 of \<^verbatim>\<open>_odex_file\<close>: the argument vector. The parameter
  \<^verbatim>\<open>bootclasspath\<close> is a list of strings or \<^verbatim>\<open>None\<close>; \<^verbatim>\<open>if bootclasspath:\<close> holds for a
  non-empty list only.
\<close>

definition truthy :: "'a list option \<Rightarrow> bool" where
  "truthy b = (case b of None \<Rightarrow> False | Some xs \<Rightarrow> xs \<noteq> [])"

definition dex2oat_command :: "patcher \<Rightarrow> path \<Rightarrow> path \<Rightarrow> string list option \<Rightarrow> string list" where
  "dex2oat_command self dex_path output_apk_path bootclasspath =
     [dex2oat_path self,
      ''--dex-file='' @ str_path dex_path,
      ''--output-oat-file='' @ str_path (oat_output_path self output_apk_path),
      ''--oat-file-format=vdex'',
      ''--output-vdex-file='' @ str_path (vdex_output_path self output_apk_path),
      ''--compiler-filter=speed''] @
     (if truthy bootclasspath
      then [''--boot-image='' @ str_join '':'' (the bootclasspath)]
      else [])"

section \<open>Files, archives and the file system\<close>

text \<open>
  The content of a file is either an opaque byte string or a well-formed zip container,
  given by its entries in central-directory order. An entry has the fields of a
  \<^verbatim>\<open>ZipInfo\<close> that the program reads (\<^verbatim>\<open>filename\<close>, \<^verbatim>\<open>compress_type\<close>) and its
  payload; a payload is a file content again, since an archive may hold archives.
\<close>

type_synonym bytes = string

datatype content = Blob bytes | Zip "zentry list"
and zentry = ZEntry (filename: string) (compress_type: nat) (data: content)

definition ZIP_STORED :: nat where
  "ZIP_STORED = 0"

definition ZIP_DEFLATED :: nat where
  "ZIP_DEFLATED = 8"

text \<open>\<^verbatim>\<open>ZipFile.namelist()\<close>.\<close>

definition namelist :: "zentry list \<Rightarrow> string list" where
  "namelist es = map filename es"

text \<open>
  \<^verbatim>\<open>ZipFile.read(name)\<close> and \<^verbatim>\<open>ZipFile.open(name)\<close> look the name up in the dictionary
  \<^verbatim>\<open>NameToInfo\<close>, which the reader fills entry by entry: of several entries with one
  name, the last is found.
\<close>

definition zip_read :: "zentry list \<Rightarrow> string \<Rightarrow> content option" where
  "zip_read es nm =
     (case filter (\<lambda>e. filename e = nm) es of
        [] \<Rightarrow> None
      | x # xs \<Rightarrow> Some (data (last (x # xs))))"

text \<open>
  The file system is a store from canonical paths to nodes. A canonical path is
  absolute (it starts with the part \<open>''/''\<close>) or relative to the working directory
  \<open>[]\<close>; a relative one may start with parts \<open>''..''\<close> for the directories above the
  working directory and has no such part further on. The root, the working directory
  and the directories above it always exist. Absolute and relative paths are taken as
  different places, except that everything is below the root. Permissions and links
  are not modelled.
\<close>

datatype node = File content | Dir

type_synonym fsys = "path \<rightharpoonup> node"

datatype lookup = Absent | NotDir | Found node

definition anchor :: "path \<Rightarrow> bool" where
  "anchor p = (p = [''/''] \<or> set p \<subseteq> {''..''})"

definition node_at :: "fsys \<Rightarrow> path \<Rightarrow> node option" where
  "node_at fs p = (if anchor p then Some Dir else fs p)"

text \<open>
  The node at a canonical path: an entry of the store counts only if every path above
  it is a directory.
\<close>

fun resolve :: "fsys \<Rightarrow> path \<Rightarrow> string list \<Rightarrow> lookup" where
  "resolve fs p [] = (case node_at fs p of None \<Rightarrow> Absent | Some n \<Rightarrow> Found n)"
| "resolve fs p (c # cs) =
     (case node_at fs p of
        None \<Rightarrow> Absent
      | Some (File _) \<Rightarrow> NotDir
      | Some Dir \<Rightarrow> resolve fs (p @ [c]) cs)"

definition cstat :: "fsys \<Rightarrow> path \<Rightarrow> lookup" where
  "cstat fs p = resolve fs [] p"

text \<open>
  A path is resolved part by part from the working directory: the place reached so far
  has to be a directory, and the part \<^verbatim>\<open>..\<close> leads to the directory above it (the root
  is above itself). \<open>walk\<close> gives the outcome and the canonical path where it stopped.
\<close>

definition step :: "path \<Rightarrow> string \<Rightarrow> path" where
  "step cur part =
     (if part = ''..''
      then (if cur = [''/''] then cur
            else if set cur \<subseteq> {''..''} then cur @ [''..'']
            else butlast cur)
      else cur @ [part])"

fun walk :: "fsys \<Rightarrow> path \<Rightarrow> string list \<Rightarrow> lookup \<times> path" where
  "walk fs cur [] = (cstat fs cur, cur)"
| "walk fs cur (part # parts) =
     (case cstat fs cur of
        Found Dir \<Rightarrow> walk fs (step cur part) parts
      | Found (File _) \<Rightarrow> (NotDir, cur)
      | r \<Rightarrow> (r, cur))"

definition stat :: "fsys \<Rightarrow> path \<Rightarrow> lookup" where
  "stat fs p = fst (walk fs [] p)"

definition locate :: "fsys \<Rightarrow> path \<Rightarrow> path" where
  "locate fs p = snd (walk fs [] p)"

text \<open>The canonical path of a path all of whose parts resolve.\<close>

definition canon :: "path \<Rightarrow> path" where
  "canon p = foldl step [] p"

text \<open>\<^verbatim>\<open>p.is_file()\<close> and \<^verbatim>\<open>p.is_dir()\<close>: false when the path does not resolve.\<close>

definition is_file :: "fsys \<Rightarrow> path \<Rightarrow> bool" where
  "is_file fs p = (case stat fs p of Found (File _) \<Rightarrow> True | _ \<Rightarrow> False)"

definition is_dir :: "fsys \<Rightarrow> path \<Rightarrow> bool" where
  "is_dir fs p = (case stat fs p of Found Dir \<Rightarrow> True | _ \<Rightarrow> False)"

text \<open>
  The exceptions of the program; those it raises itself carry their message.
  \<open>OSError\<close> stands for the operating system errors that have no class of their own
  here.
\<close>

datatype exn =
    FileNotFoundError string
  | ValueError string
  | BadZipFile
  | FileExistsError
  | NotADirectoryError
  | IsADirectoryError
  | PermissionError
  | OSError
  | AttributeError
  | IndexError
  | KeyError
  | TypeError

text \<open>
  \<^verbatim>\<open>repr(s)\<close> of a string: double quotes if the string has a single quote and no double
  quote, single quotes otherwise; the quote in use, the backslash and the control
  characters are escaped. Characters above \<open>0x7e\<close> other than \<open>0x7f\<close> are taken as
  printable.
\<close>

definition hex_digit :: "nat \<Rightarrow> char" where
  "hex_digit n = ''0123456789abcdef'' ! (n mod 16)"

definition repr_char :: "char \<Rightarrow> char \<Rightarrow> string" where
  "repr_char quote c =
     (if c = CHR 0x5C then [CHR 0x5C, CHR 0x5C]
      else if c = quote then [CHR 0x5C, c]
      else if c = CHR 0x09 then [CHR 0x5C, CHR ''t'']
      else if c = CHR 0x0A then [CHR 0x5C, CHR ''n'']
      else if c = CHR 0x0D then [CHR 0x5C, CHR ''r'']
      else if of_char c < (32 :: nat) \<or> c = CHR 0x7F
      then [CHR 0x5C, CHR ''x'', hex_digit (of_char c div 16), hex_digit (of_char c)]
      else [c])"

definition py_repr :: "string \<Rightarrow> string" where
  "py_repr s =
     (let quote = (if CHR 0x27 \<in> set s \<and> CHR 0x22 \<notin> set s then CHR 0x22 else CHR 0x27)
      in [quote] @ concat (map (repr_char quote) s) @ [quote])"

text \<open>\<^verbatim>\<open>str(e)\<close> of the \<^verbatim>\<open>FileNotFoundError\<close> that the operating system raises for a path.\<close>

definition errno2 :: "path \<Rightarrow> string" where
  "errno2 p = ''[Errno 2] No such file or directory: '' @ py_repr (str_path p)"

text \<open>\<^verbatim>\<open>os.mkdir(p)\<close>.\<close>

definition os_mkdir :: "fsys \<Rightarrow> path \<Rightarrow> exn + fsys" where
  "os_mkdir fs p =
     (case stat fs p of
        Found n \<Rightarrow> Inl FileExistsError
      | NotDir \<Rightarrow> Inl NotADirectoryError
      | Absent \<Rightarrow>
          (case stat fs (butlast p) of
             Found Dir \<Rightarrow> Inr (fs(locate fs p \<mapsto> Dir))
           | _ \<Rightarrow> Inl (FileNotFoundError (errno2 p))))"

text \<open>
  \<^verbatim>\<open>p.mkdir(parents=True, exist_ok=True)\<close>, on the reversed parts. \<^verbatim>\<open>os.mkdir\<close> is
  tried; after a \<^verbatim>\<open>FileNotFoundError\<close> the parent \<^verbatim>\<open>p.parent\<close> (the path without its last
  part) is made in the same way and \<^verbatim>\<open>os.mkdir\<close> is tried again; any other error is
  dropped if the path is a directory.
\<close>

fun mkdir_rev :: "fsys \<Rightarrow> string list \<Rightarrow> exn + fsys" where
  "mkdir_rev fs [] =
     (case os_mkdir fs [] of
        Inr fs' \<Rightarrow> Inr fs'
      | Inl e \<Rightarrow> if is_dir fs [] then Inr fs else Inl e)"
| "mkdir_rev fs (c # rp) =
     (case os_mkdir fs (rev (c # rp)) of
        Inr fs' \<Rightarrow> Inr fs'
      | Inl e \<Rightarrow>
          (case e of
             FileNotFoundError m \<Rightarrow>
               (case mkdir_rev fs rp of
                  Inl e1 \<Rightarrow> Inl e1
                | Inr fs1 \<Rightarrow>
                    (case os_mkdir fs1 (rev (c # rp)) of
                       Inr fs2 \<Rightarrow> Inr fs2
                     | Inl e2 \<Rightarrow> if is_dir fs1 (rev (c # rp)) then Inr fs1 else Inl e2))
           | _ \<Rightarrow> if is_dir fs (rev (c # rp)) then Inr fs else Inl e))"

definition mkdir :: "fsys \<Rightarrow> path \<Rightarrow> exn + fsys" where
  "mkdir fs p = mkdir_rev fs (rev p)"

text \<open>The content \<open>c\<close> is written to the file that the path \<open>p\<close> leads to.\<close>

definition put :: "fsys \<Rightarrow> path \<Rightarrow> content \<Rightarrow> fsys" where
  "put fs p c = fs(locate fs p \<mapsto> File c)"

text \<open>
  Opening a path for writing (\<^verbatim>\<open>open(p, "wb")\<close>, \<^verbatim>\<open>ZipFile(p, 'w')\<close>) and leaving the
  content \<open>c\<close> there.
\<close>

definition open_wb :: "fsys \<Rightarrow> path \<Rightarrow> content \<Rightarrow> exn + fsys" where
  "open_wb fs p c =
     (case stat fs p of
        Found Dir \<Rightarrow> Inl IsADirectoryError
      | NotDir \<Rightarrow> Inl NotADirectoryError
      | Found (File _) \<Rightarrow> Inr (put fs p c)
      | Absent \<Rightarrow>
          (case stat fs (butlast p) of
             Found Dir \<Rightarrow> Inr (put fs p c)
           | _ \<Rightarrow> Inl (FileNotFoundError (errno2 p))))"

text \<open>\<^verbatim>\<open>zipfile.ZipFile(p, 'r')\<close>: the entries, or the exception of opening and parsing.\<close>

definition open_zip :: "fsys \<Rightarrow> path \<Rightarrow> exn + zentry list" where
  "open_zip fs p =
     (case stat fs p of
        Absent \<Rightarrow> Inl (FileNotFoundError (errno2 p))
      | NotDir \<Rightarrow> Inl NotADirectoryError
      | Found Dir \<Rightarrow> Inl IsADirectoryError
      | Found (File (Blob b)) \<Rightarrow> Inl BadZipFile
      | Found (File (Zip es)) \<Rightarrow> Inr es)"

text \<open>
  The canonical path \<open>k\<close> is the directory \<open>c\<close> or lies below it. Everything lies below
  the root, and a directory above the working directory holds the working directory
  and what lies below the directories between them.
\<close>

definition leading_ups :: "path \<Rightarrow> nat" where
  "leading_ups k = length (takeWhile (\<lambda>x. x = ''..'') k)"

definition is_under :: "path \<Rightarrow> path \<Rightarrow> bool" where
  "is_under c k =
     (if c = [''/''] then True
      else if set c \<subseteq> {''..''} then take 1 k \<noteq> [''/''] \<and> leading_ups k \<le> length c
      else take (length c) k = c)"

text \<open>
  \<^verbatim>\<open>shutil.rmtree(p)\<close>: the content of the directory that \<open>p\<close> leads to is removed, then
  \<^verbatim>\<open>os.rmdir(p)\<close> removes the directory itself. The last step raises when the path
  does not lead to the directory any more (it went through a directory that is now
  removed), and for the working directory, the directories above it and the root.
\<close>

definition rmtree :: "fsys \<Rightarrow> path \<Rightarrow> exn option \<times> fsys" where
  "rmtree fs p =
     (case stat fs p of
        Found Dir \<Rightarrow>
          (let c = locate fs p;
               fs1 = (\<lambda>k. if is_under c k \<and> k \<noteq> c then None else fs k)
           in case stat fs1 p of
                Found Dir \<Rightarrow> if anchor c then (Some OSError, fs1) else (None, fs1(c := None))
              | _ \<Rightarrow> (Some (FileNotFoundError (errno2 p)), fs1))
      | Found (File _) \<Rightarrow> (Some NotADirectoryError, fs)
      | NotDir \<Rightarrow> (Some NotADirectoryError, fs)
      | Absent \<Rightarrow> (Some (FileNotFoundError (errno2 p)), fs))"

text \<open>\<^verbatim>\<open>os.remove(p)\<close> of an existing file.\<close>

definition os_remove :: "fsys \<Rightarrow> path \<Rightarrow> fsys" where
  "os_remove fs p = fs(locate fs p := None)"

section \<open>Values, results and the external compiler\<close>

text \<open>
  The methods return dictionaries from key strings to strings and paths. \<open>Obj\<close> stands
  for any other object held by a local variable.
\<close>

datatype val = Str string | PathVal path | Obj

type_synonym result = "string \<rightharpoonup> val"

text \<open>
  The argument \<^verbatim>\<open>output_dir\<close> is declared \<^verbatim>\<open>str\<close> with default \<^verbatim>\<open>None\<close>; a caller
  can hand over a \<^verbatim>\<open>Path\<close> as well.
\<close>

datatype pyarg = PyNone | PyStr string | PyPath path

text \<open>\<^verbatim>\<open>Path(x)\<close> for a string or a path.\<close>

definition to_Path :: "val \<Rightarrow> exn + path" where
  "to_Path v = (case v of Str s \<Rightarrow> Inr (Path s) | PathVal p \<Rightarrow> Inr p | Obj \<Rightarrow> Inl TypeError)"

text \<open>
  \<^verbatim>\<open>subprocess.run(command, capture_output=True, text=True, check=True)\<close>: the process
  exits with a return code and its standard error text, having changed the file system,
  or starting it raises an exception (\<^verbatim>\<open>FileNotFoundError\<close> when the executable is not
  found, \<^verbatim>\<open>PermissionError\<close> when it may not be run, and so on). The compiler is a
  parameter of the model.
\<close>

datatype proc = Exited int string fsys | Raises exn

type_synonym compiler = "string list \<Rightarrow> fsys \<Rightarrow> proc"

text \<open>
  The state of a run: the file system, and a log of the stage calls and of the processes
  started, which the program itself does not keep.
\<close>

datatype event =
    Call_extract_dex path
  | Call_odex_file path
  | Run "string list"
  | Call_package_odex path

record world =
  files :: fsys
  calls :: "event list"

definition log_call :: "event \<Rightarrow> world \<Rightarrow> world" where
  "log_call ev w = w\<lparr>calls := calls w @ [ev]\<rparr>"

section \<open>The extraction stage\<close>

definition extract_dex :: "patcher \<Rightarrow> path \<Rightarrow> fsys \<Rightarrow> (exn + path \<times> path) \<times> fsys" where
  "extract_dex self apk_path fs =
     (if \<not> is_file fs apk_path
      then (Inl (FileNotFoundError (''APK file not found: '' @ str_path apk_path)), fs)
      else
        let output_dir = joinpath (tmp_dir self) (stem apk_path) in
        case mkdir fs output_dir of
          Inl e \<Rightarrow> (Inl e, fs)
        | Inr fs1 \<Rightarrow>
            let dex_output_path = joinpath output_dir ''classes.dex'' in
            (case open_zip fs1 apk_path of
               Inl e \<Rightarrow>
                 (if e = BadZipFile
                  then (Inl (ValueError (''Invalid ZIP file: '' @ str_path apk_path)), fs1)
                  else (Inl e, fs1))
             | Inr es \<Rightarrow>
                 if ''classes.dex'' \<in> set (namelist es)
                 then (case zip_read es ''classes.dex'' of
                         None \<Rightarrow> (Inl KeyError, fs1)
                       | Some source \<Rightarrow>
                           (case open_wb fs1 dex_output_path source of
                              Inl e \<Rightarrow> (Inl e, fs1)
                            | Inr fs2 \<Rightarrow> (Inr (dex_output_path, apk_path), fs2)))
                 else (Inl (ValueError (''`classes.dex` not found in '' @ str_path apk_path)), fs1)))"

section \<open>The compile stage\<close>

definition odex_file ::
  "compiler \<Rightarrow> patcher \<Rightarrow> path \<Rightarrow> path \<Rightarrow> string list option \<Rightarrow> world \<Rightarrow>
     (exn + result) \<times> world" where
  "odex_file dex2oat self dex_path output_apk_path bootclasspath w =
     (let oat_output = oat_output_path self output_apk_path;
          vdex_output = vdex_output_path self output_apk_path;
          command = dex2oat_command self dex_path output_apk_path bootclasspath;
          w1 = log_call (Run command) w
      in case dex2oat command (files w1) of
           Exited rc err fs' \<Rightarrow>
             if rc = 0
             then (Inr [''status'' \<mapsto> Str ''success'',
                        ''message'' \<mapsto> Str (''Successfully odexed '' @ name dex_path),
                        ''oat_path'' \<mapsto> PathVal oat_output,
                        ''vdex_path'' \<mapsto> PathVal vdex_output,
                        ''original_apk'' \<mapsto> PathVal output_apk_path],
                   w1\<lparr>files := fs'\<rparr>)
             else (Inr [''status'' \<mapsto> Str ''error'',
                        ''message'' \<mapsto> Str (''Error odexing '' @ name dex_path @ '': '' @ err),
                        ''original_apk'' \<mapsto> PathVal output_apk_path],
                   w1\<lparr>files := fs'\<rparr>)
         | Raises e \<Rightarrow>
             (case e of
                FileNotFoundError m \<Rightarrow>
                  (Inr [''status'' \<mapsto> Str ''error'',
                        ''message'' \<mapsto>
                           Str ''`dex2oat` not found. Ensure Android SDK path is correct or in PATH.'',
                        ''original_apk'' \<mapsto> PathVal output_apk_path],
                   w1)
              | _ \<Rightarrow> (Inl e, w1)))"

section \<open>The repackaging stage\<close>

text \<open>
  The copy loop of \<^verbatim>\<open>_package_odex\<close>: every item is read by its file name, and written
  with its own \<^verbatim>\<open>ZipInfo\<close> unless it is named \<^verbatim>\<open>classes.dex\<close>. The loop returns the
  entries of the target so far, and the exception that stopped it, if any.
\<close>

fun odex_loop :: "zentry list \<Rightarrow> zentry list \<Rightarrow> zentry list \<Rightarrow> exn option \<times> zentry list" where
  "odex_loop source_zip [] target_zip = (None, target_zip)"
| "odex_loop source_zip (item # items) target_zip =
     (case zip_read source_zip (filename item) of
        None \<Rightarrow> (Some KeyError, target_zip)
      | Some buffer \<Rightarrow>
          if filename item \<noteq> ''classes.dex''
          then odex_loop source_zip items
                 (target_zip @ [ZEntry (filename item) (compress_type item) buffer])
          else odex_loop source_zip items target_zip)"

text \<open>\<^verbatim>\<open>f"oat/{Path(p).name[0]}/{Path(p).name}"\<close>; indexing an empty name raises.\<close>

definition shard_name :: "path \<Rightarrow> exn + string" where
  "shard_name p =
     (case name p of
        [] \<Rightarrow> Inl IndexError
      | c # cs \<Rightarrow> Inr (''oat/'' @ [c] @ ''/'' @ (c # cs)))"

text \<open>
  \<^verbatim>\<open>os.path.normpath\<close> of a relative name, which \<^verbatim>\<open>ZipFile.write\<close> applies to the
  archive name it is given: empty and \<^verbatim>\<open>.\<close> components go, \<^verbatim>\<open>..\<close> takes the
  component before it away.
\<close>

fun norm_comps :: "string list \<Rightarrow> string list \<Rightarrow> string list" where
  "norm_comps new_comps [] = new_comps"
| "norm_comps new_comps (part # parts) =
     (if part = [] \<or> part = ''.'' then norm_comps new_comps parts
      else if part \<noteq> ''..'' \<or> new_comps = [] \<or> last new_comps = ''..''
      then norm_comps (new_comps @ [part]) parts
      else norm_comps (butlast new_comps) parts)"

definition normpath :: "string \<Rightarrow> string" where
  "normpath s =
     (let r = str_join ''/'' (norm_comps [] (split_on CHR ''/'' s))
      in if r = [] then ''.'' else r)"

text \<open>
  \<^verbatim>\<open>target_zip.write(p, arcname)\<close> in an archive opened with \<^verbatim>\<open>ZIP_DEFLATED\<close>: the
  entry that is appended. A directory gives an empty stored entry whose name ends in a
  slash.
\<close>

definition zip_write :: "fsys \<Rightarrow> path \<Rightarrow> string \<Rightarrow> exn + zentry" where
  "zip_write fs p arcname =
     (case stat fs p of
        Absent \<Rightarrow> Inl (FileNotFoundError (errno2 p))
      | NotDir \<Rightarrow> Inl NotADirectoryError
      | Found Dir \<Rightarrow> Inr (ZEntry (normpath arcname @ ''/'') ZIP_STORED (Blob []))
      | Found (File c) \<Rightarrow> Inr (ZEntry (normpath arcname) ZIP_DEFLATED c))"

text \<open>
  The body of the \<^verbatim>\<open>with\<close> statement of \<^verbatim>\<open>_package_odex\<close>, after both archives are
  open: the entries the target holds when it is closed, and the exception that left the
  body, if any. The artifacts are read from the file system \<open>fs\<close> in which the target
  exists already.
\<close>

definition package_body ::
  "fsys \<Rightarrow> zentry list \<Rightarrow> path \<Rightarrow> path \<Rightarrow> exn option \<times> zentry list" where
  "package_body fs source_zip oat_path vdex_path =
     (case odex_loop source_zip source_zip [] of
        (Some e, target) \<Rightarrow> (Some e, target)
      | (None, target) \<Rightarrow>
          (case shard_name oat_path of
             Inl e \<Rightarrow> (Some e, target)
           | Inr oat_arc_name \<Rightarrow>
               (case shard_name vdex_path of
                  Inl e \<Rightarrow> (Some e, target)
                | Inr vdex_arc_name \<Rightarrow>
                    (case zip_write fs oat_path oat_arc_name of
                       Inl e \<Rightarrow> (Some e, target)
                     | Inr oat_entry \<Rightarrow>
                         (case zip_write fs vdex_path vdex_arc_name of
                            Inl e \<Rightarrow> (Some e, target @ [oat_entry])
                          | Inr vdex_entry \<Rightarrow>
                              (None, target @ [oat_entry, vdex_entry]))))))"

text \<open>
  The \<^verbatim>\<open>except\<close> clauses of \<^verbatim>\<open>_package_odex\<close>: \<^verbatim>\<open>BadZipFile\<close> and
  \<^verbatim>\<open>FileNotFoundError\<close> become results, any other exception goes on.
\<close>

definition package_except :: "path \<Rightarrow> exn \<Rightarrow> exn + result" where
  "package_except original_apk_path e =
     (case e of
        BadZipFile \<Rightarrow>
          Inr [''status'' \<mapsto> Str ''error'',
               ''message'' \<mapsto> Str (''Error processing ZIP file: '' @ str_path original_apk_path)]
      | FileNotFoundError m \<Rightarrow>
          Inr [''status'' \<mapsto> Str ''error'',
               ''message'' \<mapsto> Str (''Required file not found: '' @ m)]
      | _ \<Rightarrow> Inl e)"

text \<open>
  \<^verbatim>\<open>_package_odex\<close>. The directory is made outside the \<^verbatim>\<open>try\<close>. The target is opened
  after the source, and is closed with what it holds on every way out of the body.
\<close>

definition package_odex ::
  "path \<Rightarrow> path \<Rightarrow> path \<Rightarrow> path option \<Rightarrow> fsys \<Rightarrow> (exn + result) \<times> fsys" where
  "package_odex original_apk_path oat_path vdex_path output_dir_opt fs =
     (let output_dir = (case output_dir_opt of None \<Rightarrow> Path ''.'' | Some d \<Rightarrow> d) in
      case mkdir fs output_dir of
        Inl e \<Rightarrow> (Inl e, fs)
      | Inr fs1 \<Rightarrow>
          (let output_apk_name = stem original_apk_path @ ''-odexed.apk'';
               output_apk_path = joinpath output_dir output_apk_name
           in (case open_zip fs1 original_apk_path of
                 Inl e \<Rightarrow> (package_except original_apk_path e, fs1)
               | Inr source_zip \<Rightarrow>
                   (case open_wb fs1 output_apk_path (Zip []) of
                      Inl e \<Rightarrow> (package_except original_apk_path e, fs1)
                    | Inr fs2 \<Rightarrow>
                        (case package_body fs2 source_zip oat_path vdex_path of
                           (raised, target) \<Rightarrow>
                             (let fs3 = put fs2 output_apk_path (Zip target) in
                              (case raised of
                                 Some e \<Rightarrow> (package_except original_apk_path e, fs3)
                               | None \<Rightarrow>
                                   (Inr [''status'' \<mapsto> Str ''success'',
                                         ''message'' \<mapsto>
                                            Str (''Odexed APK created at: '' @
                                                 str_path output_apk_path),
                                         ''output_path'' \<mapsto> PathVal output_apk_path],
                                    fs3))))))))"

section \<open>One odex run\<close>

text \<open>
  The \<^verbatim>\<open>except (FileNotFoundError, ValueError) as e\<close> clause of \<^verbatim>\<open>odex_apk\<close>; the
  message is \<^verbatim>\<open>str(e)\<close>.
\<close>

definition odex_except :: "path \<Rightarrow> exn \<Rightarrow> exn + result" where
  "odex_except apk_file e =
     (case e of
        FileNotFoundError m \<Rightarrow>
          Inr [''status'' \<mapsto> Str ''error'', ''message'' \<mapsto> Str m,
               ''original_apk'' \<mapsto> PathVal apk_file]
      | ValueError m \<Rightarrow>
          Inr [''status'' \<mapsto> Str ''error'', ''message'' \<mapsto> Str m,
               ''original_apk'' \<mapsto> PathVal apk_file]
      | _ \<Rightarrow> Inl e)"

definition pyarg_truthy :: "pyarg \<Rightarrow> bool" where
  "pyarg_truthy a = (case a of PyNone \<Rightarrow> False | PyStr s \<Rightarrow> s \<noteq> [] | PyPath p \<Rightarrow> True)"

definition pyarg_Path :: "pyarg \<Rightarrow> exn + path" where
  "pyarg_Path a = (case a of PyNone \<Rightarrow> Inl TypeError | PyStr s \<Rightarrow> Inr (Path s) | PyPath p \<Rightarrow> Inr p)"

definition pyarg_val :: "pyarg \<Rightarrow> val" where
  "pyarg_val a = (case a of PyNone \<Rightarrow> Obj | PyStr s \<Rightarrow> Str s | PyPath p \<Rightarrow> PathVal p)"

text \<open>
  The \<^verbatim>\<open>try\<close> block of \<^verbatim>\<open>odex_apk\<close> with its \<^verbatim>\<open>except\<close> clause. Besides the outcome
  and the state it returns the local variables of the frame, which the \<^verbatim>\<open>finally\<close>
  block inspects through \<^verbatim>\<open>locals()\<close>.
\<close>

definition odex_try ::
  "compiler \<Rightarrow> patcher \<Rightarrow> val \<Rightarrow> path \<Rightarrow> string list option \<Rightarrow> pyarg \<Rightarrow> world \<Rightarrow>
     (exn + result) \<times> (string \<rightharpoonup> val) \<times> world" where
  "odex_try dex2oat self apk_path apk_file bootclasspath output_dir w =
     (let frame = [''self'' \<mapsto> Obj, ''apk_path'' \<mapsto> apk_path, ''bootclasspath'' \<mapsto> Obj,
                   ''output_dir'' \<mapsto> pyarg_val output_dir, ''apk_file'' \<mapsto> PathVal apk_file];
          w0 = log_call (Call_extract_dex apk_file) w
      in case extract_dex self apk_file (files w0) of
           (Inl e, fs1) \<Rightarrow> (odex_except apk_file e, frame, w0\<lparr>files := fs1\<rparr>)
         | (Inr (dex_path, original_apk), fs1) \<Rightarrow>
             (let frame1 = frame(''dex_path'' \<mapsto> PathVal dex_path,
                                 ''original_apk'' \<mapsto> PathVal original_apk);
                  w1 = log_call (Call_odex_file dex_path) (w0\<lparr>files := fs1\<rparr>)
              in (case odex_file dex2oat self dex_path original_apk bootclasspath w1 of
                    (Inl e, w2) \<Rightarrow> (odex_except apk_file e, frame1, w2)
                  | (Inr odex_result, w2) \<Rightarrow>
                      (let frame2 = frame1(''odex_result'' \<mapsto> Obj) in
                       if odex_result ''status'' = Some (Str ''success'')
                       then (case (odex_result ''original_apk'', odex_result ''oat_path'',
                                   odex_result ''vdex_path'') of
                               (Some (PathVal a), Some (PathVal b), Some (PathVal c)) \<Rightarrow>
                                 (let w3 = log_call (Call_package_odex a) w2;
                                      dir = (if pyarg_truthy output_dir
                                             then (case pyarg_Path output_dir of
                                                     Inr d \<Rightarrow> Some d
                                                   | Inl e \<Rightarrow> None)
                                             else None)
                                  in (case package_odex a b c dir (files w3) of
                                        (Inl e, fs4) \<Rightarrow>
                                          (odex_except apk_file e, frame2, w3\<lparr>files := fs4\<rparr>)
                                      | (Inr package_result, fs4) \<Rightarrow>
                                          (Inr package_result,
                                           frame2(''package_result'' \<mapsto> Obj),
                                           w3\<lparr>files := fs4\<rparr>)))
                             | _ \<Rightarrow> (Inl KeyError, frame2, w2))
                       else (Inr odex_result, frame2, w2)))))"

text \<open>
  One of the two last statements of the \<^verbatim>\<open>finally\<close> block:
  \<^verbatim>\<open>if k in locals() and Path(locals()[k]).is_file(): os.remove(locals()[k])\<close>.
\<close>

definition remove_local :: "(string \<rightharpoonup> val) \<Rightarrow> string \<Rightarrow> fsys \<Rightarrow> exn option \<times> fsys" where
  "remove_local frame k fs =
     (case frame k of
        None \<Rightarrow> (None, fs)
      | Some v \<Rightarrow>
          (case to_Path v of
             Inl e \<Rightarrow> (Some e, fs)
           | Inr p \<Rightarrow> if is_file fs p then (None, os_remove fs p) else (None, fs)))"

text \<open>
  The \<^verbatim>\<open>finally\<close> block of \<^verbatim>\<open>odex_apk\<close>. An exception of \<^verbatim>\<open>shutil.rmtree\<close> leaves the
  block at once.
\<close>

definition odex_finally ::
  "patcher \<Rightarrow> path \<Rightarrow> (string \<rightharpoonup> val) \<Rightarrow> fsys \<Rightarrow> exn option \<times> fsys" where
  "odex_finally self apk_file frame fs =
     (let temp_apk_dir = joinpath (tmp_dir self) (stem apk_file);
          frame1 = frame(''temp_apk_dir'' \<mapsto> PathVal temp_apk_dir)
      in case (if is_dir fs temp_apk_dir then rmtree fs temp_apk_dir else (None, fs)) of
           (Some e, fs1) \<Rightarrow> (Some e, fs1)
         | (None, fs1) \<Rightarrow>
             (case remove_local frame1 ''oat_path'' fs1 of
                (Some e, fs2) \<Rightarrow> (Some e, fs2)
              | (None, fs2) \<Rightarrow> remove_local frame1 ''vdex_path'' fs2))"

text \<open>
  \<^verbatim>\<open>odex_apk\<close>: an exception of the \<^verbatim>\<open>finally\<close> block replaces the outcome of the
  \<^verbatim>\<open>try\<close> block.
\<close>

definition odex_apk ::
  "compiler \<Rightarrow> patcher \<Rightarrow> val \<Rightarrow> string list option \<Rightarrow> pyarg \<Rightarrow> world \<Rightarrow>
     (exn + result) \<times> world" where
  "odex_apk dex2oat self apk_path bootclasspath output_dir w =
     (case to_Path apk_path of
        Inl e \<Rightarrow> (Inl e, w)
      | Inr apk_file \<Rightarrow>
          (case odex_try dex2oat self apk_path apk_file bootclasspath output_dir w of
             (outcome, frame, w1) \<Rightarrow>
               (case odex_finally self apk_file frame (files w1) of
                  (Some e, fs') \<Rightarrow> (Inl e, w1\<lparr>files := fs'\<rparr>)
                | (None, fs') \<Rightarrow> (outcome, w1\<lparr>files := fs'\<rparr>))))"

section \<open>The strip operation\<close>

definition startswith :: "string \<Rightarrow> string \<Rightarrow> bool" where
  "startswith s pre = (take (length pre) s = pre)"

text \<open>
  The loop of \<^verbatim>\<open>deodex_apk\<close>, on the entries of the target so far and the flag
  \<^verbatim>\<open>found_dex\<close>.
\<close>

fun deodex_loop ::
  "zentry list \<Rightarrow> zentry list \<Rightarrow> zentry list \<times> bool \<Rightarrow> exn option \<times> zentry list \<times> bool" where
  "deodex_loop source_zip [] (target_zip, found_dex) = (None, target_zip, found_dex)"
| "deodex_loop source_zip (item # items) (target_zip, found_dex) =
     (if \<not> startswith (filename item) ''oat/'' \<and> filename item \<noteq> ''classes.dex''
      then (case zip_read source_zip (filename item) of
              None \<Rightarrow> (Some KeyError, target_zip, found_dex)
            | Some buffer \<Rightarrow>
                deodex_loop source_zip items
                  (target_zip @ [ZEntry (filename item) (compress_type item) buffer], found_dex))
      else if filename item = ''classes.dex''
      then deodex_loop source_zip items (target_zip, True)
      else deodex_loop source_zip items (target_zip, found_dex))"

text \<open>\<^verbatim>\<open>str(x)\<close> of a string or a path.\<close>

definition py_str :: "val \<Rightarrow> string" where
  "py_str v = (case v of Str s \<Rightarrow> s | PathVal p \<Rightarrow> str_path p | Obj \<Rightarrow> ''<object>'')"

text \<open>The \<^verbatim>\<open>except zipfile.BadZipFile\<close> clause of \<^verbatim>\<open>deodex_apk\<close>.\<close>

definition deodex_except :: "val \<Rightarrow> exn \<Rightarrow> exn + result" where
  "deodex_except apk_path e =
     (if e = BadZipFile
      then Inr [''status'' \<mapsto> Str ''error'',
                ''message'' \<mapsto> Str (''Invalid ZIP file: '' @ py_str apk_path)]
      else Inl e)"

text \<open>
  \<^verbatim>\<open>output_dir.mkdir(...)\<close> in \<^verbatim>\<open>deodex_apk\<close>: only \<^verbatim>\<open>None\<close> has been replaced by a
  path before, and a string has no method \<^verbatim>\<open>mkdir\<close>.
\<close>

definition deodex_output_dir :: "pyarg \<Rightarrow> exn + path" where
  "deodex_output_dir output_dir =
     (case output_dir of
        PyNone \<Rightarrow> Inr (Path ''.'')
      | PyPath d \<Rightarrow> Inr d
      | PyStr s \<Rightarrow> Inl AttributeError)"

definition deodex_apk :: "val \<Rightarrow> pyarg \<Rightarrow> fsys \<Rightarrow> (exn + result) \<times> fsys" where
  "deodex_apk apk_path output_dir fs =
     (case to_Path apk_path of
        Inl e \<Rightarrow> (Inl e, fs)
      | Inr apk_file \<Rightarrow>
          if \<not> is_file fs apk_file
          then (Inr [''status'' \<mapsto> Str ''error'',
                     ''message'' \<mapsto> Str (''APK file not found: '' @ str_path apk_file)],
                fs)
          else
            (case deodex_output_dir output_dir of
               Inl e \<Rightarrow> (Inl e, fs)
             | Inr dir \<Rightarrow>
                 (case mkdir fs dir of
                    Inl e \<Rightarrow> (Inl e, fs)
                  | Inr fs1 \<Rightarrow>
                      (let output_apk_name = stem apk_file @ ''-deodexed.apk'';
                           output_apk_path = joinpath dir output_apk_name
                       in (case open_zip fs1 apk_file of
                             Inl e \<Rightarrow> (deodex_except apk_path e, fs1)
                           | Inr source_zip \<Rightarrow>
                               (case open_wb fs1 output_apk_path (Zip []) of
                                  Inl e \<Rightarrow> (deodex_except apk_path e, fs1)
                                | Inr fs2 \<Rightarrow>
                                    (case deodex_loop source_zip source_zip ([], False) of
                                       (raised, target, found_dex) \<Rightarrow>
                                         (let fs3 = put fs2 output_apk_path (Zip target) in
                                          (case raised of
                                             Some e \<Rightarrow> (deodex_except apk_path e, fs3)
                                           | None \<Rightarrow>
                                               if \<not> found_dex
                                               then (Inr [''status'' \<mapsto> Str ''warning'',
                                                          ''message'' \<mapsto>
                                                             Str (''No classes.dex found in '' @
                                                                  str_path apk_file @
                                                                  ''. Already deodexed?''),
                                                          ''output_path'' \<mapsto>
                                                             PathVal output_apk_path],
                                                     fs3)
                                               else (Inr [''status'' \<mapsto> Str ''success'',
                                                          ''message'' \<mapsto>
                                                             Str (''Attempted deodexed APK created at: '' @
                                                                  str_path output_apk_path @
                                                                  '' (OAT/VDex removed)''),
                                                          ''output_path'' \<mapsto>
                                                             PathVal output_apk_path],
                                                     fs3))))))))))"

section \<open>The batch\<close>

text \<open>
  The submission loop of \<^verbatim>\<open>process_files\<close>. Every submitted run is executed at once
  and alone, in submission order; a future holds the result or the exception of its
  run. This is the schedule of a pool with one worker (\<^verbatim>\<open>num_threads = 1\<close>). With more
  workers it is one of the possible schedules: runs that overlap in time are not
  modelled.
\<close>

fun submit_all ::
  "compiler \<Rightarrow> patcher \<Rightarrow> string list \<Rightarrow> string \<Rightarrow> string list option \<Rightarrow> pyarg \<Rightarrow>
     result list \<times> (exn + result) list \<times> world \<Rightarrow> result list \<times> (exn + result) list \<times> world" where
  "submit_all dex2oat self [] operation bootclasspath output_dir st = st"
| "submit_all dex2oat self (file_path # file_paths) operation bootclasspath output_dir
     (results, futures, w) =
     (if operation = ''odex''
      then (case odex_apk dex2oat self (Str file_path) bootclasspath output_dir w of
              (future, w') \<Rightarrow>
                submit_all dex2oat self file_paths operation bootclasspath output_dir
                  (results, futures @ [future], w'))
      else if operation = ''deodex''
      then (case deodex_apk (Str file_path) output_dir (files w) of
              (future, fs') \<Rightarrow>
                submit_all dex2oat self file_paths operation bootclasspath output_dir
                  (results, futures @ [future], w\<lparr>files := fs'\<rparr>))
      else submit_all dex2oat self file_paths operation bootclasspath output_dir
             (results @ [[''status'' \<mapsto> Str ''error'',
                          ''message'' \<mapsto> Str (''Invalid operation: '' @ operation),
                          ''original_file'' \<mapsto> Str file_path]],
              futures, w))"

text \<open>
  \<^verbatim>\<open>for future in futures: results.append(future.result())\<close>: the exception of a run
  is raised again here.
\<close>

fun collect :: "result list \<Rightarrow> (exn + result) list \<Rightarrow> exn + result list" where
  "collect results [] = Inr results"
| "collect results (Inl e # futures) = Inl e"
| "collect results (Inr r # futures) = collect (results @ [r]) futures"

text \<open>
  \<^verbatim>\<open>process_files\<close>. \<^verbatim>\<open>ThreadPoolExecutor(max_workers=0)\<close> raises a \<^verbatim>\<open>ValueError\<close>.
\<close>

definition process_files ::
  "compiler \<Rightarrow> patcher \<Rightarrow> string list \<Rightarrow> string \<Rightarrow> string list option \<Rightarrow> pyarg \<Rightarrow> world \<Rightarrow>
     (exn + result list) \<times> world" where
  "process_files dex2oat self file_paths operation bootclasspath output_dir w =
     (if num_threads self = 0
      then (Inl (ValueError ''max_workers must be greater than 0''), w)
      else (case submit_all dex2oat self file_paths operation bootclasspath output_dir ([], [], w) of
              (results, futures, w') \<Rightarrow> (collect results futures, w')))"

section \<open>Purging the scratch root\<close>

definition cleanup_tmp_dir :: "patcher \<Rightarrow> fsys \<Rightarrow> exn option \<times> fsys" where
  "cleanup_tmp_dir self fs =
     (if is_dir fs (tmp_dir self)
      then (case rmtree fs (tmp_dir self) of
              (Some e, fs1) \<Rightarrow> (Some e, fs1)
            | (None, fs1) \<Rightarrow>
                (case mkdir fs1 (tmp_dir self) of
                   Inl e \<Rightarrow> (Some e, fs1)
                 | Inr fs2 \<Rightarrow> (None, fs2)))
      else (None, fs))"

section \<open>A compiler and a file system to run the model on\<close>

text \<open>
  A compiler that succeeds: it leaves an oat file and a vdex file at the paths that its
  arguments name, as \<^verbatim>\<open>dex2oat\<close> does, and exits with status 0.
\<close>

fun arg_value :: "string \<Rightarrow> string list \<Rightarrow> string option" where
  "arg_value key [] = None"
| "arg_value key (a # as) =
     (if startswith a key then Some (drop (length key) a) else arg_value key as)"

definition dex2oat_ok :: compiler where
  "dex2oat_ok command fs =
     (case (arg_value ''--output-oat-file='' command, arg_value ''--output-vdex-file='' command) of
        (Some oat, Some vdex) \<Rightarrow>
          Exited 0 [] (put (put fs (Path oat) (Blob ''oat'')) (Path vdex) (Blob ''vdex''))
      | _ \<Rightarrow> Exited 1 ''usage'' fs)"

text \<open>A compiler that fails, and one that is not installed.\<close>

definition dex2oat_fails :: compiler where
  "dex2oat_fails command fs = Exited 1 ''dex2oat: bad dex file'' fs"

definition dex2oat_missing :: compiler where
  "dex2oat_missing command fs = Raises (FileNotFoundError ''dex2oat'')"

text \<open>The patcher of the default constructor arguments, with \<^verbatim>\<open>dex2oat\<close> on the search path.\<close>

definition patcher0 :: patcher where
  "patcher0 = \<lparr>num_threads = 4, tmp_dir = Path ''tmp_odex_patcher'', dex2oat_path = ''dex2oat''\<rparr>"

text \<open>
  A working directory that holds the scratch root, an archive \<^verbatim>\<open>app.apk\<close> with
  \<^verbatim>\<open>classes.dex\<close> and one more entry, and an archive \<^verbatim>\<open>nodex.apk\<close> without
  \<^verbatim>\<open>classes.dex\<close>; there is no \<^verbatim>\<open>missing.apk\<close>.
\<close>

definition app_zip :: "zentry list" where
  "app_zip = [ZEntry ''classes.dex'' ZIP_DEFLATED (Blob ''dex''),
              ZEntry ''res/a.png'' ZIP_STORED (Blob ''png'')]"

definition nodex_zip :: "zentry list" where
  "nodex_zip = [ZEntry ''AndroidManifest.xml'' ZIP_DEFLATED (Blob ''xml'')]"

definition fs0 :: fsys where
  "fs0 = [[''tmp_odex_patcher''] \<mapsto> Dir,
          [''app.apk''] \<mapsto> File (Zip app_zip),
          [''nodex.apk''] \<mapsto> File (Zip nodex_zip)]"

definition w0 :: world where
  "w0 = \<lparr>files = fs0, calls = []\<rparr>"

section \<open>Notions used in the statements\<close>

text \<open>The value under a key of a returned dictionary, and the exception of a call.\<close>

definition returned :: "exn + result \<Rightarrow> string \<Rightarrow> val option" where
  "returned outcome k = (case outcome of Inl e \<Rightarrow> None | Inr r \<Rightarrow> r k)"

definition raised :: "exn + 'a \<Rightarrow> exn option" where
  "raised outcome = (case outcome of Inl e \<Rightarrow> Some e | Inr r \<Rightarrow> None)"

text \<open>The runs that the statements below evaluate.\<close>

definition odex_run0 :: "(exn + result) \<times> world" where
  "odex_run0 = odex_apk dex2oat_ok patcher0 (Str ''app.apk'') None PyNone w0"

definition fs_littered :: fsys where
  "fs_littered = fs0([''tmp_odex_patcher'', ''app.oat''] \<mapsto> File (Blob ''oat''),
                     [''tmp_odex_patcher'', ''old''] \<mapsto> Dir,
                     [''tmp_odex_patcher'', ''old'', ''classes.dex''] \<mapsto> File (Blob ''dex''))"

text \<open>
  The entries that the two loops copy: all but \<^verbatim>\<open>classes.dex\<close> on the odex path, and
  all but \<^verbatim>\<open>classes.dex\<close> and the names that begin with \<^verbatim>\<open>oat/\<close> on the strip path.
\<close>

definition copied_odex :: "zentry \<Rightarrow> bool" where
  "copied_odex e = (filename e \<noteq> ''classes.dex'')"

definition copied_strip :: "zentry \<Rightarrow> bool" where
  "copied_strip e = (\<not> startswith (filename e) ''oat/'' \<and> filename e \<noteq> ''classes.dex'')"




text \<open>
  More runs: the repackaging of \<^verbatim>\<open>app.apk\<close> once the artifacts are in the scratch root,
  and the strip of its output; an archive with two entries of one name; and an archive
  that has an entry below \<^verbatim>\<open>oat/\<close> before it is odexed.
\<close>

definition fs_compiled :: fsys where
  "fs_compiled = fs0([''tmp_odex_patcher'', ''app.oat''] \<mapsto> File (Blob ''oat''),
                     [''tmp_odex_patcher'', ''app.vdex''] \<mapsto> File (Blob ''vdex''))"

definition package_run0 :: "(exn + result) \<times> fsys" where
  "package_run0 = package_odex (Path ''app.apk'') (oat_output_path patcher0 (Path ''app.apk''))
                    (vdex_output_path patcher0 (Path ''app.apk'')) None fs_compiled"

definition strip_run0 :: "(exn + result) \<times> fsys" where
  "strip_run0 = deodex_apk (PathVal (Path ''app-odexed.apk'')) PyNone (snd package_run0)"

definition dup_zip :: "zentry list" where
  "dup_zip = [ZEntry ''classes.dex'' ZIP_DEFLATED (Blob ''dex''),
              ZEntry ''res/a.txt'' ZIP_STORED (Blob ''one''),
              ZEntry ''res/a.txt'' ZIP_DEFLATED (Blob ''two'')]"

definition fs_dup :: fsys where
  "fs_dup = [[''tmp_odex_patcher''] \<mapsto> Dir,
             [''dup.apk''] \<mapsto> File (Zip dup_zip),
             [''tmp_odex_patcher'', ''dup.oat''] \<mapsto> File (Blob ''oat''),
             [''tmp_odex_patcher'', ''dup.vdex''] \<mapsto> File (Blob ''vdex'')]"

definition pre_zip :: "zentry list" where
  "pre_zip = [ZEntry ''classes.dex'' ZIP_DEFLATED (Blob ''dex''),
              ZEntry ''res/a.png'' ZIP_STORED (Blob ''png''),
              ZEntry ''oat/arm64/base.odex'' ZIP_STORED (Blob ''odex'')]"

definition odex_run_pre :: "(exn + result) \<times> world" where
  "odex_run_pre = odex_apk dex2oat_ok patcher0 (Str ''pre.apk'') None PyNone
                    \<lparr>files = [[''tmp_odex_patcher''] \<mapsto> Dir, [''pre.apk''] \<mapsto> File (Zip pre_zip)],
                     calls = []\<rparr>"

definition strip_run_pre :: "(exn + result) \<times> fsys" where
  "strip_run_pre = deodex_apk (PathVal (Path ''pre-odexed.apk'')) PyNone (files (snd odex_run_pre))"

text \<open>
  A patcher with one worker, and a working directory that holds, besides \<^verbatim>\<open>app.apk\<close>,
  the archive \<^verbatim>\<open>app.oat.apk\<close> without \<^verbatim>\<open>classes.dex\<close>; the batch of the two and of a
  path that does not exist.
\<close>

definition patcher1 :: patcher where
  "patcher1 = patcher0\<lparr>num_threads := 1\<rparr>"

definition fs_batch :: fsys where
  "fs_batch = [[''tmp_odex_patcher''] \<mapsto> Dir,
               [''app.apk''] \<mapsto> File (Zip app_zip),
               [''app.oat.apk''] \<mapsto> File (Zip nodex_zip)]"

definition batch_run :: "(exn + result list) \<times> world" where
  "batch_run = process_files dex2oat_ok patcher1 [''app.apk'', ''app.oat.apk'', ''missing.apk'']
                 ''odex'' None PyNone \<lparr>files = fs_batch, calls = []\<rparr>"

text \<open>The run for a path whose stem is \<^verbatim>\<open>..\<close>; the file does not exist.\<close>

definition odex_run_dots :: "(exn + result) \<times> world" where
  "odex_run_dots = odex_apk dex2oat_ok patcher0 (Str ''...apk'') None PyNone w0"

section \<open>Facts about paths\<close>

lemma split_on_no_sep: "c \<notin> set s \<Longrightarrow> split_on c s = [s]"
  by (induction s) auto

lemma split_on_parts: "w \<in> set (split_on c s) \<Longrightarrow> c \<notin> set w"
  by (induction s arbitrary: w) (auto split: if_splits list.splits)

lemma Path_simple:
  "CHR ''/'' \<notin> set s \<Longrightarrow> s \<noteq> [] \<Longrightarrow> s \<noteq> ''.'' \<Longrightarrow> Path s = [s]"
  by (cases s) (auto simp: Path_def is_absolute_def split_on_no_sep)

lemma joinpath_simple:
  "CHR ''/'' \<notin> set s \<Longrightarrow> s \<noteq> [] \<Longrightarrow> s \<noteq> ''.'' \<Longrightarrow> joinpath p s = p @ [s]"
  by (cases s) (auto simp: joinpath_def Path_simple is_absolute_def)

text \<open>No part of a parsed path has a slash inside, so neither has its name or its stem.\<close>

lemma name_Path_no_sep: "CHR ''/'' \<notin> set (name (Path s))"
proof (cases "Path s = [] \<or> Path s = [''/'']")
  case True
  then show ?thesis by (auto simp: name_def)
next
  case False
  let ?ws = "filter (\<lambda>w. w \<noteq> [] \<and> w \<noteq> ''.'') (split_on CHR ''/'' s)"
  have nm: "name (Path s) = last (Path s)" using False by (simp add: name_def)
  have "?ws \<noteq> []" using False by (auto simp: Path_def split: if_splits)
  then have "last (Path s) = last ?ws" by (simp add: Path_def)
  moreover have "last ?ws \<in> set ?ws" using \<open>?ws \<noteq> []\<close> by (rule last_in_set)
  ultimately have "name (Path s) \<in> set (split_on CHR ''/'' s)" using nm by simp
  then show ?thesis by (rule split_on_parts)
qed

lemma stem_subset: "set (stem p) \<subseteq> set (name p)"
  by (auto simp: stem_def Let_def split: option.splits dest: in_set_takeD)

lemma stem_Path_no_sep: "CHR ''/'' \<notin> set (stem (Path s))"
  using stem_subset name_Path_no_sep by blast

lemma artifact_name_simple:
  assumes "CHR ''/'' \<notin> set st" "CHR ''/'' \<notin> set ext" "length ext \<ge> 2"
  shows "joinpath p (st @ ext) = p @ [st @ ext]"
proof -
  have "st @ ext \<noteq> []" using assms by auto
  moreover have "st @ ext \<noteq> ''.''"
  proof
    assume "st @ ext = ''.''"
    then have "length (st @ ext) = 1" by simp
    then show False using assms by simp
  qed
  ultimately show ?thesis using assms by (simp add: joinpath_simple)
qed

lemma oat_output_path_Path:
  "oat_output_path self (Path s) = tmp_dir self @ [stem (Path s) @ ''.oat'']"
  unfolding oat_output_path_def by (rule artifact_name_simple) (simp_all add: stem_Path_no_sep)

lemma vdex_output_path_Path:
  "vdex_output_path self (Path s) = tmp_dir self @ [stem (Path s) @ ''.vdex'']"
  unfolding vdex_output_path_def by (rule artifact_name_simple) (simp_all add: stem_Path_no_sep)

lemma tmp_dir_patcher0: "tmp_dir patcher0 = [''tmp_odex_patcher'']"
  by (simp add: patcher0_def Path_def is_absolute_def)

section \<open>The argument vector of the compiler\<close>



section \<open>Where the artifacts are written\<close>

lemma canon_snoc: "x \<noteq> ''..'' \<Longrightarrow> canon (p @ [x]) = canon p @ [x]"
  by (simp add: canon_def step_def)

lemma sibling_not_below:
  assumes "a \<noteq> ''..''" "CHR ''/'' \<notin> set a" "e \<noteq> []"
  shows "\<not> is_under (k @ [a]) (k @ [a @ e])"
proof -
  have "a \<noteq> ''/''" using assms(2) by auto
  then have "k @ [a] \<noteq> [''/'']" by simp
  moreover have "\<not> set (k @ [a]) \<subseteq> {''..''}" using assms(1) by simp
  ultimately have "is_under (k @ [a]) (k @ [a @ e]) \<longleftrightarrow> take (length (k @ [a])) (k @ [a @ e]) = k @ [a]"
    by (simp only: is_under_def if_False)
  then show ?thesis using assms(3) by simp
qed

text \<open>
  Claim C9. For the path of any input string, the oat and vdex paths are the stem with
  the suffix \<^verbatim>\<open>.oat\<close> or \<^verbatim>\<open>.vdex\<close>, as one part directly below the scratch root, and
  two archives with the same stem get the same artifact paths. When the stem is not
  empty, not \<^verbatim>\<open>.\<close> and not \<^verbatim>\<open>..\<close>, the place of neither artifact is the scratch
  sub-directory of the archive or below it.
\<close>

theorem artifact_paths:
  "oat_output_path self (Path s) = tmp_dir self @ [stem (Path s) @ ''.oat'']
   \<and> vdex_output_path self (Path s) = tmp_dir self @ [stem (Path s) @ ''.vdex'']
   \<and> (stem (Path s) \<noteq> [] \<and> stem (Path s) \<noteq> ''.'' \<and> stem (Path s) \<noteq> ''..'' \<longrightarrow>
        \<not> is_under (canon (joinpath (tmp_dir self) (stem (Path s))))
                     (canon (oat_output_path self (Path s)))
      \<and> \<not> is_under (canon (joinpath (tmp_dir self) (stem (Path s))))
                     (canon (vdex_output_path self (Path s))))
   \<and> (stem (Path s) = stem (Path t) \<longrightarrow>
        oat_output_path self (Path s) = oat_output_path self (Path t)
      \<and> vdex_output_path self (Path s) = vdex_output_path self (Path t))"
proof -
  let ?st = "stem (Path s)"
  have ns: "CHR ''/'' \<notin> set ?st" by (rule stem_Path_no_sep)
  have far: "\<not> is_under (canon (joinpath (tmp_dir self) ?st)) (canon (tmp_dir self @ [?st @ e]))"
    if ne: "?st \<noteq> []" "?st \<noteq> ''.''" "?st \<noteq> ''..''" and e: "e \<noteq> []" "?st @ e \<noteq> ''..''" for e
  proof -
    have "joinpath (tmp_dir self) ?st = tmp_dir self @ [?st]"
      using ne ns by (simp add: joinpath_simple)
    then have a: "canon (joinpath (tmp_dir self) ?st) = canon (tmp_dir self) @ [?st]"
      using ne(3) by (simp add: canon_snoc)
    have b: "canon (tmp_dir self @ [?st @ e]) = canon (tmp_dir self) @ [?st @ e]"
      using e(2) by (rule canon_snoc)
    show ?thesis unfolding a b using ne(3) ns e(1) by (rule sibling_not_below)
  qed
  have o: "?st @ ''.oat'' \<noteq> ''..''" and v: "?st @ ''.vdex'' \<noteq> ''..''"
    by (auto dest: arg_cong[where f = length])
  have c3: "?st \<noteq> [] \<and> ?st \<noteq> ''.'' \<and> ?st \<noteq> ''..'' \<longrightarrow>
        \<not> is_under (canon (joinpath (tmp_dir self) ?st)) (canon (oat_output_path self (Path s)))
      \<and> \<not> is_under (canon (joinpath (tmp_dir self) ?st)) (canon (vdex_output_path self (Path s)))"
    using far[of "''.oat''"] far[of "''.vdex''"] o v
    by (simp add: oat_output_path_Path vdex_output_path_Path)
  have c4: "?st = stem (Path t) \<longrightarrow>
        oat_output_path self (Path s) = oat_output_path self (Path t)
      \<and> vdex_output_path self (Path s) = vdex_output_path self (Path t)"
    by (simp add: oat_output_path_Path vdex_output_path_Path)
  show ?thesis
    using c3 c4 by (simp add: oat_output_path_Path vdex_output_path_Path)
qed

theorem artifact_paths_witness:
  "oat_output_path patcher0 (Path ''in/app.apk'') = [''tmp_odex_patcher'', ''app.oat'']
   \<and> vdex_output_path patcher0 (Path ''in/app.apk'') = [''tmp_odex_patcher'', ''app.vdex'']
   \<and> stem (Path ''in/app.apk'') = stem (Path ''other/app.jar'')
   \<and> oat_output_path patcher0 (Path ''in/app.apk'') =
       oat_output_path patcher0 (Path ''other/app.jar'')
   \<and> \<not> is_under (canon (joinpath (tmp_dir patcher0) (stem (Path ''in/app.apk''))))
          (canon (oat_output_path patcher0 (Path ''in/app.apk'')))"
proof -
  have st: "stem (Path ''in/app.apk'') = ''app''" "stem (Path ''other/app.jar'') = ''app''"
    by code_simp+
  note inst = artifact_paths [of patcher0 "''in/app.apk''" "''other/app.jar''"]
  have a: "oat_output_path patcher0 (Path ''in/app.apk'') = [''tmp_odex_patcher'', ''app.oat'']"
    using inst by (simp add: st tmp_dir_patcher0)
  have b: "vdex_output_path patcher0 (Path ''in/app.apk'') = [''tmp_odex_patcher'', ''app.vdex'']"
    using inst by (simp add: st tmp_dir_patcher0)
  have c: "stem (Path ''in/app.apk'') = stem (Path ''other/app.jar'')"
    by (simp add: st)
  have d: "oat_output_path patcher0 (Path ''in/app.apk'') =
             oat_output_path patcher0 (Path ''other/app.jar'')"
    using inst c by blast
  have "stem (Path ''in/app.apk'') \<noteq> [] \<and> stem (Path ''in/app.apk'') \<noteq> ''.''
        \<and> stem (Path ''in/app.apk'') \<noteq> ''..''"
    by (simp add: st)
  then have e: "\<not> is_under (canon (joinpath (tmp_dir patcher0) (stem (Path ''in/app.apk''))))
                    (canon (oat_output_path patcher0 (Path ''in/app.apk'')))"
    using inst by blast
  from a b c d e show ?thesis by blast
qed

text \<open>
  For the archive \<^verbatim>\<open>..apk\<close> the stem is a dot, the scratch sub-directory of the archive
  is the scratch root itself, and both artifacts are written below it. For \<^verbatim>\<open>...apk\<close>
  the stem is \<^verbatim>\<open>..\<close>, the scratch sub-directory is the directory above the scratch
  root, and the artifacts are below it as well.
\<close>

theorem artifact_paths_counterexample:
  "stem (Path ''..apk'') = ''.''
   \<and> joinpath (tmp_dir patcher0) (stem (Path ''..apk'')) = tmp_dir patcher0
   \<and> oat_output_path patcher0 (Path ''..apk'') = [''tmp_odex_patcher'', ''..oat'']
   \<and> vdex_output_path patcher0 (Path ''..apk'') = [''tmp_odex_patcher'', ''..vdex'']
   \<and> is_under (canon (joinpath (tmp_dir patcher0) (stem (Path ''..apk''))))
               (canon (oat_output_path patcher0 (Path ''..apk'')))
   \<and> is_under (canon (joinpath (tmp_dir patcher0) (stem (Path ''..apk''))))
               (canon (vdex_output_path patcher0 (Path ''..apk'')))
   \<and> stem (Path ''...apk'') = ''..''
   \<and> canon (joinpath (tmp_dir patcher0) (stem (Path ''...apk''))) = []
   \<and> is_under (canon (joinpath (tmp_dir patcher0) (stem (Path ''...apk''))))
               (canon (oat_output_path patcher0 (Path ''...apk'')))"
  by code_simp

section \<open>Facts about the file system\<close>

lemma resolve_snoc:
  "resolve fs b (cs @ [c]) =
     (case resolve fs b cs of
        Found Dir \<Rightarrow> (case node_at fs (b @ cs @ [c]) of None \<Rightarrow> Absent | Some n \<Rightarrow> Found n)
      | Found (File x) \<Rightarrow> NotDir
      | NotDir \<Rightarrow> NotDir
      | Absent \<Rightarrow> Absent)"
  by (induction cs arbitrary: b) (auto split: option.splits node.splits)

lemma cstat_Nil: "cstat fs [] = Found Dir"
  by (simp add: cstat_def node_at_def anchor_def)

lemma cstat_snoc:
  "cstat fs (p @ [c]) =
     (case cstat fs p of
        Found Dir \<Rightarrow> (case node_at fs (p @ [c]) of None \<Rightarrow> Absent | Some n \<Rightarrow> Found n)
      | Found (File x) \<Rightarrow> NotDir
      | NotDir \<Rightarrow> NotDir
      | Absent \<Rightarrow> Absent)"
  by (simp add: cstat_def resolve_snoc split: lookup.splits node.splits)

lemma cstat_parent: "cstat fs (p @ [c]) = Found n \<Longrightarrow> cstat fs p = Found Dir"
  by (auto simp: cstat_snoc split: lookup.splits node.splits)

lemma cstat_agree:
  "(\<And>i. i \<le> length p \<Longrightarrow> fs' (take i p) = fs (take i p)) \<Longrightarrow> cstat fs' p = cstat fs p"
proof (induction p rule: rev_induct)
  case Nil
  show ?case by (simp add: cstat_Nil)
next
  case (snoc c p)
  have "fs' (take i p) = fs (take i p)" if "i \<le> length p" for i
    using snoc.prems[of i] that by simp
  then have "cstat fs' p = cstat fs p" by (rule snoc.IH)
  moreover have "fs' (p @ [c]) = fs (p @ [c])"
    using snoc.prems[of "Suc (length p)"] by simp
  ultimately show ?case by (simp add: cstat_snoc node_at_def split: lookup.splits node.splits)
qed

lemma cstat_Found_prefix:
  "cstat fs p = Found n \<Longrightarrow> i \<le> length p \<Longrightarrow> \<exists>m. cstat fs (take i p) = Found m"
proof (induction p arbitrary: n rule: rev_induct)
  case Nil
  then show ?case by simp
next
  case (snoc c p)
  show ?case
  proof (cases "i \<le> length p")
    case True
    have "cstat fs p = Found Dir" using snoc.prems(1) by (rule cstat_parent)
    then show ?thesis using snoc.IH True by simp
  next
    case False
    then have "take i (p @ [c]) = p @ [c]" using snoc.prems(2) by simp
    then show ?thesis using snoc.prems(1) by simp
  qed
qed

lemma anchor_butlast: "anchor (p @ [c]) \<Longrightarrow> p \<noteq> [] \<Longrightarrow> anchor p"
  by (cases p) (auto simp: anchor_def)

lemma anchor_cstat: "anchor p \<Longrightarrow> cstat fs p = Found Dir"
proof (induction p rule: rev_induct)
  case Nil
  show ?case by (rule cstat_Nil)
next
  case (snoc c p)
  have "cstat fs p = Found Dir"
  proof (cases "p = []")
    case True
    then show ?thesis by (simp add: cstat_Nil)
  next
    case False
    then show ?thesis using snoc anchor_butlast by blast
  qed
  then show ?case using snoc.prems by (simp add: cstat_snoc node_at_def)
qed

lemma cstat_node:
  assumes "cstat fs k = Found n" "\<not> anchor k"
  shows "fs k = Some n"
proof (cases k rule: rev_cases)
  case Nil
  then show ?thesis using assms(2) by (simp add: anchor_def)
next
  case (snoc b y)
  have "node_at fs k = Some n"
    using assms(1) unfolding snoc
    by (auto simp: cstat_snoc split: lookup.splits node.splits option.splits)
  then show ?thesis using assms(2) by (simp add: node_at_def)
qed

lemma cstat_child:
  "cstat fs k = Found Dir \<Longrightarrow> \<not> anchor (k @ [x]) \<Longrightarrow>
     cstat fs (k @ [x]) = (case fs (k @ [x]) of None \<Rightarrow> Absent | Some n \<Rightarrow> Found n)"
  by (simp add: cstat_snoc node_at_def)

lemma cstat_mono:
  assumes "\<And>k. fs' k \<noteq> fs k \<Longrightarrow> cstat fs k = Absent"
      and "cstat fs q = Found n"
  shows "cstat fs' q = Found n"
proof -
  have "fs' (take i q) = fs (take i q)" if le: "i \<le> length q" for i
  proof (rule ccontr)
    assume "fs' (take i q) \<noteq> fs (take i q)"
    then have a: "cstat fs (take i q) = Absent" by (rule assms(1))
    obtain m where "cstat fs (take i q) = Found m"
      using cstat_Found_prefix[OF assms(2) le] by blast
    then show False using a by simp
  qed
  then have "cstat fs' q = cstat fs q" by (rule cstat_agree)
  then show ?thesis using assms(2) by simp
qed

lemma step_up_cstat: "cstat fs k = Found Dir \<Longrightarrow> cstat fs (step k ''..'') = Found Dir"
proof (cases "k = [''/''] \<or> set k \<subseteq> {''..''}")
  case True
  then have "anchor (step k ''..'')" by (auto simp: step_def anchor_def)
  then show ?thesis by (rule anchor_cstat)
next
  case False
  assume d: "cstat fs k = Found Dir"
  from False obtain b y where k: "k = b @ [y]" by (cases k rule: rev_cases) auto
  have s: "step k ''..'' = b" using False k by (simp add: step_def)
  have "cstat fs b = Found Dir" using d unfolding k by (rule cstat_parent)
  then show ?thesis by (simp only: s)
qed

lemma step_down: "x \<noteq> ''..'' \<Longrightarrow> step k x = k @ [x]"
  by (simp add: step_def)

lemma walk_Found:
  "walk fs cur ps = (Found n, k) \<Longrightarrow> k = foldl step cur ps \<and> cstat fs k = Found n"
  by (induction ps arbitrary: cur) (auto split: lookup.splits node.splits)

lemma walk_mono:
  assumes "\<And>q n. cstat fs q = Found n \<Longrightarrow> cstat fs' q = Found n"
  shows "walk fs cur ps = (Found n, k) \<Longrightarrow> walk fs' cur ps = (Found n, k)"
proof (induction ps arbitrary: cur)
  case Nil
  then show ?case using assms by auto
next
  case (Cons x ps)
  from Cons.prems have d: "cstat fs cur = Found Dir"
    by (auto split: lookup.splits node.splits)
  then have d': "cstat fs' cur = Found Dir" by (rule assms)
  from Cons.prems d have "walk fs (step cur x) ps = (Found n, k)" by simp
  then have "walk fs' (step cur x) ps = (Found n, k)" by (rule Cons.IH)
  then show ?case using d' by simp
qed

lemma walk_append:
  "walk fs cur ps = (Found Dir, k) \<Longrightarrow> walk fs cur (ps @ qs) = walk fs k qs"
  by (induction ps arbitrary: cur) (auto split: lookup.splits node.splits)

lemma walk_snoc_Found:
  "walk fs cur (ps @ [x]) = (Found n, k) \<Longrightarrow> walk fs cur ps = (Found Dir, foldl step cur ps)"
  by (induction ps arbitrary: cur) (auto split: lookup.splits node.splits)

lemma walk_cong:
  "(\<And>j. j \<le> length ps \<Longrightarrow>
        cstat fs' (foldl step cur (take j ps)) = cstat fs (foldl step cur (take j ps))) \<Longrightarrow>
   walk fs' cur ps = walk fs cur ps"
proof (induction ps arbitrary: cur)
  case Nil
  then show ?case using Nil[of 0] by simp
next
  case (Cons x ps)
  have c: "cstat fs' cur = cstat fs cur" using Cons.prems[of 0] by simp
  have "cstat fs' (foldl step (step cur x) (take j ps)) = cstat fs (foldl step (step cur x) (take j ps))"
    if "j \<le> length ps" for j
    using Cons.prems[of "Suc j"] that by simp
  then have "walk fs' (step cur x) ps = walk fs (step cur x) ps" by (rule Cons.IH)
  then show ?case using c by (simp split: lookup.splits node.splits)
qed

lemma stat_Nil: "stat fs [] = Found Dir"
  by (simp add: stat_def cstat_Nil)

lemma stat_Found:
  "stat fs p = Found n \<Longrightarrow> walk fs [] p = (Found n, canon p) \<and> cstat fs (canon p) = Found n"
proof -
  assume a: "stat fs p = Found n"
  obtain k where w: "walk fs [] p = (Found n, k)"
    using a by (cases "walk fs [] p") (simp add: stat_def)
  have "k = canon p" "cstat fs k = Found n"
    using walk_Found[OF w] unfolding canon_def by blast+
  then show ?thesis using w by simp
qed

lemma walk_stat: "walk fs [] p = (r, k) \<Longrightarrow> stat fs p = r \<and> locate fs p = k"
  by (simp add: stat_def locate_def)

lemma locate_Found: "stat fs p = Found n \<Longrightarrow> locate fs p = canon p"
  using stat_Found[of fs p n] by (simp add: locate_def)

lemma stat_parent: "stat fs (p @ [c]) = Found n \<Longrightarrow> stat fs p = Found Dir"
proof -
  assume "stat fs (p @ [c]) = Found n"
  then have "walk fs [] (p @ [c]) = (Found n, canon (p @ [c]))" using stat_Found by blast
  then have "walk fs [] p = (Found Dir, foldl step [] p)" by (rule walk_snoc_Found)
  then show ?thesis by (simp add: stat_def)
qed

lemma stat_mono:
  assumes "\<And>q n. cstat fs q = Found n \<Longrightarrow> cstat fs' q = Found n"
      and "stat fs q = Found n"
  shows "stat fs' q = Found n"
proof -
  have "walk fs [] q = (Found n, canon q)" using assms(2) stat_Found by blast
  then have "walk fs' [] q = (Found n, canon q)" using assms(1) walk_mono by blast
  then show ?thesis by (simp add: stat_def)
qed

lemma stat_new:
  assumes ab: "stat fs p = Absent" and par: "stat fs (butlast p) = Found Dir"
  shows "locate fs p = canon p \<and> \<not> anchor (canon p) \<and> cstat fs (canon p) = Absent
         \<and> stat (fs(canon p \<mapsto> n)) p = Found n"
proof -
  have "p \<noteq> []" using ab by (auto simp: stat_Nil)
  then obtain b x where p: "p = b @ [x]" by (cases p rule: rev_cases) auto
  have wb: "walk fs [] b = (Found Dir, canon b)" and cb: "cstat fs (canon b) = Found Dir"
    using par p stat_Found[of fs b Dir] by simp_all
  have w: "walk fs [] p = (cstat fs (step (canon b) x), step (canon b) x)"
    unfolding p using walk_append[OF wb, of "[x]"] cb by simp
  have cp: "canon p = step (canon b) x" by (simp add: p canon_def)
  have ca: "cstat fs (canon p) = Absent" and lo: "locate fs p = canon p"
    using w ab by (simp_all add: stat_def locate_def cp)
  have na: "\<not> anchor (canon p)" using ca anchor_cstat[of "canon p" fs] by auto
  have x: "x \<noteq> ''..''" using ca cb step_up_cstat[of fs "canon b"] by (auto simp: cp)
  then have cp': "canon p = canon b @ [x]" by (simp add: cp step_def)
  let ?fs = "fs(canon p \<mapsto> n)"
  have mono: "cstat ?fs q = Found m" if "cstat fs q = Found m" for q m
  proof (rule cstat_mono[OF _ that])
    fix k assume "?fs k \<noteq> fs k"
    then have "k = canon p" by (auto split: if_splits)
    then show "cstat fs k = Absent" using ca by simp
  qed
  have wb': "walk ?fs [] b = (Found Dir, canon b)" using mono wb walk_mono by blast
  have cb': "cstat ?fs (canon b) = Found Dir" using mono cb by blast
  have cx: "cstat ?fs (canon b @ [x]) = Found n"
    using cb' na by (simp add: cstat_snoc node_at_def cp')
  have "walk ?fs [] (b @ [x]) = walk ?fs (canon b) [x]" by (rule walk_append[OF wb'])
  also have "\<dots> = (Found n, canon b @ [x])" using cb' cx x by (simp add: step_def)
  finally have "stat ?fs p = Found n" by (simp add: stat_def p)
  then show ?thesis using lo na ca by simp
qed

lemma upd_Absent_mono:
  "cstat fs k = Absent \<Longrightarrow> cstat fs q = Found m \<Longrightarrow> cstat (fs(k \<mapsto> n)) q = Found m"
  by (rule cstat_mono) (auto split: if_splits)

lemma os_mkdir_Inr:
  "os_mkdir fs p = Inr fs' \<Longrightarrow>
     stat fs p = Absent \<and> stat fs (butlast p) = Found Dir \<and> fs' = fs(canon p \<mapsto> Dir)"
proof -
  assume a: "os_mkdir fs p = Inr fs'"
  then have ab: "stat fs p = Absent" and par: "stat fs (butlast p) = Found Dir"
    by (auto simp: os_mkdir_def split: lookup.splits node.splits)
  then have "locate fs p = canon p" using stat_new by blast
  then show ?thesis using a ab par by (simp add: os_mkdir_def)
qed

lemma os_mkdir_mono:
  "os_mkdir fs p = Inr fs' \<Longrightarrow> cstat fs q = Found n \<Longrightarrow> cstat fs' q = Found n"
  using os_mkdir_Inr[of fs p fs'] stat_new[of fs p] upd_Absent_mono by metis

lemma os_mkdir_is_dir: "os_mkdir fs p = Inr fs' \<Longrightarrow> stat fs' p = Found Dir"
  using os_mkdir_Inr[of fs p fs'] stat_new[of fs p Dir] by metis

lemma is_dir_stat: "is_dir fs p \<longleftrightarrow> stat fs p = Found Dir"
  by (auto simp: is_dir_def split: lookup.splits node.splits)

lemma is_file_stat: "is_file fs p \<longleftrightarrow> (\<exists>c. stat fs p = Found (File c))"
  by (auto simp: is_file_def split: lookup.splits node.splits)

lemma mkdir_rev_cases:
  assumes "mkdir_rev fs (c # rp) = Inr fs'"
  shows "os_mkdir fs (rev (c # rp)) = Inr fs'
       \<or> (fs' = fs \<and> is_dir fs (rev (c # rp)))
       \<or> (\<exists>fs1. mkdir_rev fs rp = Inr fs1
             \<and> (os_mkdir fs1 (rev (c # rp)) = Inr fs' \<or> (fs' = fs1 \<and> is_dir fs1 (rev (c # rp)))))"
  using assms by (auto split: sum.splits exn.splits if_splits)

lemma mkdir_rev_mono:
  "mkdir_rev fs rp = Inr fs' \<Longrightarrow> cstat fs q = Found n \<Longrightarrow> cstat fs' q = Found n"
proof (induction rp arbitrary: fs')
  case Nil
  then show ?case by (auto split: sum.splits if_splits dest: os_mkdir_mono)
next
  case (Cons c rp)
  from mkdir_rev_cases[OF Cons.prems(1)] show ?case
    using Cons.IH Cons.prems(2) os_mkdir_mono by blast
qed

lemma mkdir_rev_is_dir: "mkdir_rev fs rp = Inr fs' \<Longrightarrow> stat fs' (rev rp) = Found Dir"
proof (cases rp)
  case Nil
  then show ?thesis by (simp add: stat_Nil)
next
  case (Cons c rp')
  assume "mkdir_rev fs rp = Inr fs'"
  from mkdir_rev_cases[OF this[unfolded Cons]] show ?thesis
    unfolding Cons using os_mkdir_is_dir is_dir_stat by blast
qed

lemma mkdir_preserves_Found:
  assumes "mkdir fs p = Inr fs'" "stat fs q = Found n"
  shows "stat fs' q = Found n"
  using assms(2) by (rule stat_mono[rotated]) (use assms(1) mkdir_rev_mono mkdir_def in metis)

lemma mkdir_is_dir: "mkdir fs p = Inr fs' \<Longrightarrow> is_dir fs' p"
  using mkdir_rev_is_dir[of fs "rev p" fs'] by (simp add: mkdir_def is_dir_stat)

lemma mkdir_existing: "stat fs p = Found Dir \<Longrightarrow> mkdir fs p = Inr fs"
  by (cases "rev p") (auto simp: mkdir_def os_mkdir_def is_dir_stat stat_Nil dest: arg_cong[where f = rev])

lemma cstat_put:
  assumes "cstat fs k = Found (File x)"
      and "fs' k = Some (File c)" and "\<And>a. a \<noteq> k \<Longrightarrow> fs' a = fs a"
  shows "cstat fs' q = (if q = k then Found (File c) else cstat fs q)"
proof (induction q rule: rev_induct)
  case Nil
  have "k \<noteq> []" using assms(1) by (auto simp: cstat_Nil)
  then show ?case by (simp add: cstat_Nil)
next
  case (snoc y q)
  have na: "\<not> anchor k" using assms(1) anchor_cstat[of k fs] by auto
  show ?case
  proof (cases "q = k")
    case True
    then show ?thesis using snoc assms(1) by (simp add: cstat_snoc)
  next
    case False
    then have e: "cstat fs' q = cstat fs q" using snoc by simp
    show ?thesis
    proof (cases "q @ [y] = k")
      case True
      then have "cstat fs q = Found Dir" using assms(1) cstat_parent by blast
      then have "cstat fs' q = Found Dir" using e by simp
      then have "cstat fs' (q @ [y]) = Found (File c)"
        using na assms(2) unfolding True[symmetric] by (simp add: cstat_snoc node_at_def)
      then show ?thesis using True by simp
    next
      case False
      then show ?thesis using e assms(3)[of "q @ [y]"]
        by (simp add: cstat_snoc node_at_def split: lookup.splits node.splits)
    qed
  qed
qed

lemma walk_put:
  assumes "cstat fs k = Found (File x)"
      and "fs' k = Some (File c)" and "\<And>a. a \<noteq> k \<Longrightarrow> fs' a = fs a"
  shows "walk fs' cur ps =
           (case walk fs cur ps of
              (r, k') \<Rightarrow> (if k' = k \<and> r = Found (File x) then Found (File c) else r, k'))"
proof (induction ps arbitrary: cur)
  case Nil
  show ?case using assms(1) by (simp add: cstat_put[OF assms])
next
  case (Cons y ps)
  show ?case
  proof (cases "cur = k")
    case True
    then show ?thesis using assms(1) by (simp add: cstat_put[OF assms])
  next
    case False
    then show ?thesis using Cons
      by (simp add: cstat_put[OF assms] split: lookup.splits node.splits)
  qed
qed

lemma put_existing:
  assumes "stat fs p = Found (File x)"
  shows "stat (put fs p c) p = Found (File c)"
proof -
  have w: "walk fs [] p = (Found (File x), canon p)" and cs: "cstat fs (canon p) = Found (File x)"
    using assms stat_Found by blast+
  have k: "put fs p c (canon p) = Some (File c)"
    and o: "\<And>a. a \<noteq> canon p \<Longrightarrow> put fs p c a = fs a"
    using assms by (simp_all add: put_def locate_Found)
  show ?thesis using walk_put[OF cs k o, of "[]" p] w by (simp add: stat_def)
qed

lemma put_other:
  assumes "stat fs p = Found (File x)" "stat fs q = Found n" "canon q \<noteq> canon p"
  shows "stat (put fs p c) q = Found n"
proof -
  have cs: "cstat fs (canon p) = Found (File x)" using assms(1) stat_Found by blast
  have w: "walk fs [] q = (Found n, canon q)" using assms(2) stat_Found by blast
  have k: "put fs p c (canon p) = Some (File c)"
    and o: "\<And>a. a \<noteq> canon p \<Longrightarrow> put fs p c a = fs a"
    using assms by (simp_all add: put_def locate_Found)
  show ?thesis using walk_put[OF cs k o, of "[]" q] w assms(3) by (simp add: stat_def)
qed

lemma open_wb_stat:
  assumes "open_wb fs p c = Inr fs'"
  shows "stat fs' p = Found (File c)"
proof (cases "stat fs p")
  case Absent
  then have par: "stat fs (butlast p) = Found Dir" and e: "fs' = put fs p c"
    using assms by (auto simp: open_wb_def split: lookup.splits node.splits)
  have "locate fs p = canon p" "stat (fs(canon p \<mapsto> File c)) p = Found (File c)"
    using stat_new[OF Absent par] by blast+
  then show ?thesis by (simp add: e put_def)
next
  case NotDir
  then show ?thesis using assms by (simp add: open_wb_def)
next
  case (Found n)
  then obtain x where n: "n = File x" and e: "fs' = put fs p c"
    using assms by (cases n) (auto simp: open_wb_def)
  show ?thesis unfolding e using Found n by (intro put_existing) simp
qed

lemma open_wb_content:
  assumes "open_wb fs p c = Inr fs2"
  shows "stat (put fs2 p c') p = Found (File c')"
  using open_wb_stat[OF assms] by (rule put_existing)

section \<open>Facts about removing a tree\<close>

lemma walk_prefix_Found:
  "walk fs cur ps = (Found n, k) \<Longrightarrow> j \<le> length ps \<Longrightarrow>
     \<exists>m. cstat fs (foldl step cur (take j ps)) = Found m"
proof (induction ps arbitrary: cur j)
  case Nil
  then show ?case by auto
next
  case (Cons x ps)
  from Cons.prems(1) have d: "cstat fs cur = Found Dir"
    by (auto split: lookup.splits node.splits)
  show ?case
  proof (cases j)
    case 0
    then show ?thesis using d by simp
  next
    case (Suc j')
    from Cons.prems(1) d have "walk fs (step cur x) ps = (Found n, k)" by simp
    moreover have "j' \<le> length ps" using Cons.prems(2) Suc by simp
    ultimately have "\<exists>m. cstat fs (foldl step (step cur x) (take j' ps)) = Found m"
      by (rule Cons.IH)
    then show ?thesis using Suc by simp
  qed
qed

lemma walk_Absent: "cstat fs cur = Absent \<Longrightarrow> walk fs cur ps = (Absent, cur)"
  by (cases ps) simp_all

lemma under_not_anchor:
  assumes "\<not> anchor c" "is_under c k"
  shows "\<not> anchor k"
proof
  assume a: "anchor k"
  have t: "take (length c) k = c" using assms by (auto simp: is_under_def anchor_def split: if_splits)
  have "c \<noteq> []" using assms(1) by (auto simp: anchor_def)
  from a consider "k = [''/'']" | "set k \<subseteq> {''..''}" by (auto simp: anchor_def)
  then show False
  proof cases
    case 1
    then have "c = [''/'']" using t \<open>c \<noteq> []\<close> by (cases "length c") auto
    then show False using assms(1) by (simp add: anchor_def)
  next
    case 2
    have "set (take (length c) k) \<subseteq> set k" by (rule set_take_subset)
    then have "set c \<subseteq> {''..''}" using t 2 by auto
    then show False using assms(1) by (simp add: anchor_def)
  qed
qed

lemma under_child: "\<not> anchor c \<Longrightarrow> is_under c (c @ r)"
  by (auto simp: is_under_def anchor_def)

lemma mkdir_rev_changes:
  "mkdir_rev fs rp = Inr fs' \<Longrightarrow> fs' k \<noteq> fs k \<Longrightarrow>
     \<exists>j\<le>length rp. k = canon (take j (rev rp))"
proof (induction rp arbitrary: fs')
  case Nil
  then show ?case
    by (auto simp: os_mkdir_def stat_Nil split: sum.splits if_splits)
next
  case (Cons c rp)
  have top: "\<exists>j\<le>length (c # rp). k = canon (take j (rev (c # rp)))"
    if o: "os_mkdir g (rev (c # rp)) = Inr fs'" and ne: "fs' k \<noteq> g k" for g
  proof -
    have e: "fs' = g(canon (rev (c # rp)) \<mapsto> Dir)" using os_mkdir_Inr[OF o] by blast
    have "k = canon (rev (c # rp))"
    proof (rule ccontr)
      assume "k \<noteq> canon (rev (c # rp))"
      then have "fs' k = g k" by (simp add: e)
      then show False using ne by simp
    qed
    then have "k = canon (take (length (c # rp)) (rev (c # rp)))" by simp
    then show ?thesis by blast
  qed
  have sub: "\<exists>j\<le>length (c # rp). k = canon (take j (rev (c # rp)))"
    if m: "mkdir_rev fs rp = Inr g" and ne: "g k \<noteq> fs k" for g
  proof -
    obtain j where j: "j \<le> length rp" "k = canon (take j (rev rp))"
      using Cons.IH[OF m ne] by blast
    then have "k = canon (take j (rev (c # rp)))" by simp
    then show ?thesis using j(1) by (intro exI[of _ j]) simp
  qed
  from mkdir_rev_cases[OF Cons.prems(1)] show ?case
  proof (elim disjE exE conjE)
    assume "os_mkdir fs (rev (c # rp)) = Inr fs'"
    then show ?thesis using Cons.prems(2) by (rule top)
  next
    assume "fs' = fs"
    then show ?thesis using Cons.prems(2) by simp
  next
    fix fs1 assume m: "mkdir_rev fs rp = Inr fs1" and o: "os_mkdir fs1 (rev (c # rp)) = Inr fs'"
    show ?thesis
    proof (cases "fs' k = fs1 k")
      case True
      then have "fs1 k \<noteq> fs k" using Cons.prems(2) by simp
      then show ?thesis using m sub by blast
    next
      case False
      then show ?thesis using o top by blast
    qed
  next
    fix fs1 assume m: "mkdir_rev fs rp = Inr fs1" and e: "fs' = fs1"
    then have "fs1 k \<noteq> fs k" using Cons.prems(2) by simp
    then show ?thesis using m sub by blast
  qed
qed

lemma rmtree_None:
  assumes "rmtree fs p = (None, fs')"
  shows "\<exists>g. stat fs p = Found Dir \<and> \<not> anchor (canon p) \<and> stat g p = Found Dir
           \<and> (\<forall>k. is_under (canon p) k \<longrightarrow> k \<noteq> canon p \<longrightarrow> g k = None)
           \<and> fs' (canon p) = None \<and> (\<forall>k. k \<noteq> canon p \<longrightarrow> fs' k = g k)"
proof -
  have d: "stat fs p = Found Dir"
    using assms by (auto simp: rmtree_def split: lookup.splits node.splits)
  then have c: "locate fs p = canon p" by (rule locate_Found)
  let ?g = "\<lambda>k. if is_under (canon p) k \<and> k \<noteq> canon p then None else fs k"
  have r: "(case stat ?g p of
              Found Dir \<Rightarrow> if anchor (canon p) then (Some OSError, ?g) else (None, ?g(canon p := None))
            | _ \<Rightarrow> (Some (FileNotFoundError (errno2 p)), ?g)) = (None, fs')"
    using assms d c by (simp add: rmtree_def Let_def)
  then have sg: "stat ?g p = Found Dir"
    by (auto split: lookup.splits node.splits if_splits)
  have na: "\<not> anchor (canon p)" using r sg by (auto split: if_splits)
  have e: "fs' = ?g(canon p := None)" using r sg na by simp
  have a: "fs' (canon p) = None" by (simp add: e)
  have b: "\<forall>k. k \<noteq> canon p \<longrightarrow> fs' k = ?g k" by (simp add: e)
  have u: "\<forall>k. is_under (canon p) k \<longrightarrow> k \<noteq> canon p \<longrightarrow> ?g k = None" by simp
  show ?thesis
    by (rule exI[of _ ?g]) (intro conjI d na sg u a b)
qed

lemma cleanup_empty:
  assumes "is_dir fs T" and run: "cleanup_tmp_dir self fs = (None, fs')" and T: "T = tmp_dir self"
  shows "is_dir fs' T \<and> (\<forall>x r. x \<noteq> ''..'' \<longrightarrow> stat fs' (T @ x # r) = Absent)"
proof -
  obtain f where rm: "rmtree fs T = (None, f)" and mk: "mkdir f T = Inr fs'"
    using assms by (auto simp: cleanup_tmp_dir_def split: prod.splits option.splits sum.splits)
  obtain g where na: "\<not> anchor (canon T)" and sg: "stat g T = Found Dir"
    and gu: "\<And>k. is_under (canon T) k \<Longrightarrow> k \<noteq> canon T \<Longrightarrow> g k = None"
    and fo: "\<And>k. k \<noteq> canon T \<Longrightarrow> f k = g k"
    using rmtree_None[OF rm] by blast
  have d: "is_dir fs' T" using mk by (rule mkdir_is_dir)
  then have st: "stat fs' T = Found Dir" by (simp add: is_dir_stat)
  have wg: "walk g [] T = (Found Dir, canon T)" using sg stat_Found by blast
  have em: "fs' k = None" if u: "is_under (canon T) k" and ne: "k \<noteq> canon T" for k
  proof (rule ccontr)
    assume nn: "fs' k \<noteq> None"
    have fk: "f k = None" using fo[OF ne] gu[OF u ne] by simp
    then have "fs' k \<noteq> f k" using nn by simp
    then obtain j where j: "j \<le> length (rev T)" "k = canon (take j (rev (rev T)))"
      using mk mkdir_rev_changes unfolding mkdir_def by blast
    then have "\<exists>m. cstat g (foldl step [] (take j T)) = Found m"
      using walk_prefix_Found[OF wg, of j] by simp
    then obtain m where "cstat g k = Found m" using j(2) by (auto simp: canon_def)
    moreover have "\<not> anchor k" using na u by (rule under_not_anchor)
    ultimately have "g k = Some m" by (rule cstat_node)
    then show False using gu[OF u ne] by simp
  qed
  have "stat fs' (T @ x # r) = Absent" if x: "x \<noteq> ''..''" for x r
  proof -
    have w: "walk fs' [] T = (Found Dir, canon T)" and cd: "cstat fs' (canon T) = Found Dir"
      using st stat_Found by blast+
    have u: "is_under (canon T) (canon T @ [x])" using na by (rule under_child)
    then have nk: "\<not> anchor (canon T @ [x])" using na under_not_anchor by blast
    have "fs' (canon T @ [x]) = None" using u by (intro em) simp_all
    then have ab: "cstat fs' (canon T @ [x]) = Absent"
      using cd nk by (simp add: cstat_child)
    have "walk fs' [] (T @ x # r) = walk fs' (canon T) (x # r)" by (rule walk_append[OF w])
    also have "\<dots> = walk fs' (canon T @ [x]) r" using cd x by (simp add: step_def)
    also have "\<dots> = (Absent, canon T @ [x])" using ab by (rule walk_Absent)
    finally show ?thesis by (simp add: stat_def)
  qed
  then show ?thesis using d by blast
qed

lemma canon_plain: "''..'' \<notin> set ps \<Longrightarrow> foldl step cur ps = cur @ ps"
  by (induction ps arbitrary: cur) (auto simp: step_def)

lemma plain_not_anchor: "''..'' \<notin> set T \<Longrightarrow> T \<noteq> [] \<Longrightarrow> T \<noteq> [''/''] \<Longrightarrow> \<not> anchor T"
  by (cases T) (auto simp: anchor_def)

lemma is_under_plain: "\<not> anchor c \<Longrightarrow> is_under c k \<longleftrightarrow> take (length c) k = c"
  by (simp add: is_under_def anchor_def)

lemma prefix_not_below:
  assumes "\<not> anchor T"
  shows "\<not> (is_under T (take i T) \<and> take i T \<noteq> T)"
proof
  assume a: "is_under T (take i T) \<and> take i T \<noteq> T"
  then have "take (length T) (take i T) = T" using assms by (simp add: is_under_plain)
  moreover have "take (length T) (take i T) = take i T" by (rule take_all) simp
  ultimately show False using a by simp
qed

lemma walk_plain_agree:
  assumes pl: "''..'' \<notin> set p"
      and ag: "\<And>i. i \<le> length p \<Longrightarrow> fs' (take i p) = fs (take i p)"
  shows "walk fs' [] p = walk fs [] p"
proof (rule walk_cong)
  fix j assume j: "j \<le> length p"
  have "''..'' \<notin> set (take j p)" using pl by (auto dest: in_set_takeD)
  then have fp: "foldl step [] (take j p) = take j p" using canon_plain[of "take j p" "[]"] by simp
  have "cstat fs' (take j p) = cstat fs (take j p)"
  proof (rule cstat_agree)
    fix i
    have e: "take i (take j p) = take (min i j) p" by (simp add: min.commute)
    have "min i j \<le> length p" using j by simp
    then have "fs' (take (min i j) p) = fs (take (min i j) p)" by (rule ag)
    then show "fs' (take i (take j p)) = fs (take i (take j p))" by (simp only: e)
  qed
  then show "cstat fs' (foldl step [] (take j p)) = cstat fs (foldl step [] (take j p))"
    by (simp only: fp)
qed

lemma cleanup_returns:
  assumes d: "is_dir fs T" and pl: "''..'' \<notin> set T" "T \<noteq> []" "T \<noteq> [''/'']" and T: "T = tmp_dir self"
  shows "\<exists>fs'. cleanup_tmp_dir self fs = (None, fs')"
proof -
  have st: "stat fs T = Found Dir" using d by (simp add: is_dir_stat)
  have cT: "canon T = T" using pl(1) by (simp add: canon_def canon_plain)
  have na: "\<not> anchor T" using pl by (rule plain_not_anchor)
  have lo: "locate fs T = T" using locate_Found[OF st] cT by simp
  let ?g = "\<lambda>k. if is_under T k \<and> k \<noteq> T then None else fs k"
  have "walk ?g [] T = walk fs [] T"
  proof (rule walk_plain_agree[OF pl(1)])
    fix i
    have "\<not> (is_under T (take i T) \<and> take i T \<noteq> T)" by (rule prefix_not_below[OF na])
    then show "?g (take i T) = fs (take i T)" by (simp only: if_False)
  qed
  then have sg: "stat ?g T = Found Dir" using st by (simp add: stat_def)
  let ?f = "?g(T := None)"
  have "rmtree fs T =
          (case stat ?g T of
             Found Dir \<Rightarrow> if anchor T then (Some OSError, ?g) else (None, ?f)
           | _ \<Rightarrow> (Some (FileNotFoundError (errno2 T)), ?g))"
    by (simp add: rmtree_def Let_def st lo)
  then have rm: "rmtree fs T = (None, ?f)" by (simp add: sg na)
  obtain b x where bx: "T = b @ [x]" using pl(2) by (cases T rule: rev_cases) auto
  have sb: "stat ?g b = Found Dir" using sg unfolding bx by (rule stat_parent)
  have bpl: "''..'' \<notin> set b" using pl(1) bx by simp
  have cb: "canon b = b" using bpl by (simp add: canon_def canon_plain)
  have "walk ?f [] b = walk ?g [] b"
  proof (rule walk_plain_agree[OF bpl])
    fix i
    have "length (take i b) < length T" by (simp add: bx)
    then have "take i b \<noteq> T" by auto
    then show "?f (take i b) = ?g (take i b)" by simp
  qed
  then have wfb: "walk ?f [] b = (Found Dir, b)"
    using stat_Found[OF sb] cb by simp
  have sfb: "stat ?f b = Found Dir" using wfb by (simp add: stat_def)
  have cfb: "cstat ?f b = Found Dir" using walk_Found[OF wfb] by simp
  have x: "x \<noteq> ''..''" using pl(1) bx by auto
  have nab: "\<not> anchor (b @ [x])" using na bx by simp
  have "?f (b @ [x]) = None" by (simp add: bx)
  then have ab: "cstat ?f (b @ [x]) = Absent"
    using cstat_child[OF cfb nab] by simp
  have "walk ?f [] (b @ [x]) = walk ?f b [x]" by (rule walk_append[OF wfb])
  also have "\<dots> = walk ?f (b @ [x]) []" using cfb x by (simp add: step_def)
  also have "\<dots> = (Absent, b @ [x])" using ab by simp
  finally have "stat ?f T = Absent" by (simp add: stat_def bx)
  moreover have "stat ?f (butlast T) = Found Dir" using sfb by (simp add: bx)
  ultimately obtain f2 where "os_mkdir ?f T = Inr f2"
    by (simp add: os_mkdir_def)
  then have "mkdir_rev ?f (x # rev b) = Inr f2" by (simp add: bx)
  then have "mkdir ?f T = Inr f2" by (simp add: mkdir_def bx)
  then have "cleanup_tmp_dir self fs = (None, f2)"
    using d rm by (simp add: cleanup_tmp_dir_def T[symmetric])
  then show ?thesis by blast
qed

section \<open>Purging the scratch root: the claim\<close>

text \<open>
  Claim C10. If the scratch root is a directory and \<^verbatim>\<open>cleanup_tmp_dir\<close> returns, then
  afterwards the scratch root is a directory and no path below it exists. The call does
  return when the scratch root is a directory whose path has no part \<^verbatim>\<open>..\<close> and is
  neither the working directory nor the root. If the scratch root is not a directory,
  the call returns without an exception and leaves the file system as it was.
\<close>

theorem cleanup_tmp_dir_spec:
  "(is_dir fs (tmp_dir self) \<longrightarrow>
      (\<forall>fs'. cleanup_tmp_dir self fs = (None, fs') \<longrightarrow>
         is_dir fs' (tmp_dir self)
       \<and> (\<forall>x r. x \<noteq> ''..'' \<longrightarrow> stat fs' (tmp_dir self @ x # r) = Absent)))
   \<and> (is_dir fs (tmp_dir self) \<longrightarrow> ''..'' \<notin> set (tmp_dir self) \<longrightarrow> tmp_dir self \<noteq> [] \<longrightarrow>
        tmp_dir self \<noteq> [''/''] \<longrightarrow> (\<exists>fs'. cleanup_tmp_dir self fs = (None, fs')))
   \<and> (\<not> is_dir fs (tmp_dir self) \<longrightarrow> cleanup_tmp_dir self fs = (None, fs))"
proof (intro conjI)
  show "is_dir fs (tmp_dir self) \<longrightarrow>
      (\<forall>fs'. cleanup_tmp_dir self fs = (None, fs') \<longrightarrow>
         is_dir fs' (tmp_dir self)
       \<and> (\<forall>x r. x \<noteq> ''..'' \<longrightarrow> stat fs' (tmp_dir self @ x # r) = Absent))"
    using cleanup_empty[of fs "tmp_dir self" self] by blast
  show "is_dir fs (tmp_dir self) \<longrightarrow> ''..'' \<notin> set (tmp_dir self) \<longrightarrow> tmp_dir self \<noteq> [] \<longrightarrow>
        tmp_dir self \<noteq> [''/''] \<longrightarrow> (\<exists>fs'. cleanup_tmp_dir self fs = (None, fs'))"
    using cleanup_returns[of fs "tmp_dir self" self] by blast
  show "\<not> is_dir fs (tmp_dir self) \<longrightarrow> cleanup_tmp_dir self fs = (None, fs)"
    by (simp add: cleanup_tmp_dir_def)
qed

theorem cleanup_tmp_dir_spec_witness:
  "is_dir fs_littered (tmp_dir patcher0)
   \<and> is_file fs_littered [''tmp_odex_patcher'', ''old'', ''classes.dex'']
   \<and> (\<exists>fs'. cleanup_tmp_dir patcher0 fs_littered = (None, fs')
          \<and> is_dir fs' (tmp_dir patcher0)
          \<and> stat fs' [''tmp_odex_patcher'', ''app.oat''] = Absent
          \<and> stat fs' [''tmp_odex_patcher'', ''old'', ''classes.dex''] = Absent)
   \<and> \<not> is_dir fs0 (tmp_dir (patcher0\<lparr>tmp_dir := [''elsewhere'']\<rparr>))
   \<and> cleanup_tmp_dir (patcher0\<lparr>tmp_dir := [''elsewhere'']\<rparr>) fs0 = (None, fs0)"
proof -
  note inst = cleanup_tmp_dir_spec [of fs_littered patcher0]
  have d: "is_dir fs_littered (tmp_dir patcher0)" by code_simp
  have f: "is_file fs_littered [''tmp_odex_patcher'', ''old'', ''classes.dex'']" by code_simp
  have n: "\<not> is_dir fs0 (tmp_dir (patcher0\<lparr>tmp_dir := [''elsewhere'']\<rparr>))" by code_simp
  have t: "tmp_dir patcher0 = [''tmp_odex_patcher'']" by code_simp
  have pl: "''..'' \<notin> set (tmp_dir patcher0)" "tmp_dir patcher0 \<noteq> []" "tmp_dir patcher0 \<noteq> [''/'']"
    by (simp_all add: t)
  obtain fs' where r: "cleanup_tmp_dir patcher0 fs_littered = (None, fs')"
    using inst d pl by blast
  have e: "is_dir fs' (tmp_dir patcher0)"
    and a: "\<forall>x r. x \<noteq> ''..'' \<longrightarrow> stat fs' (tmp_dir patcher0 @ x # r) = Absent"
    using inst d r by blast+
  have "stat fs' (tmp_dir patcher0 @ ''app.oat'' # []) = Absent"
       "stat fs' (tmp_dir patcher0 @ ''old'' # [''classes.dex'']) = Absent"
    using a by simp_all
  then have a2: "stat fs' [''tmp_odex_patcher'', ''app.oat''] = Absent"
            "stat fs' [''tmp_odex_patcher'', ''old'', ''classes.dex''] = Absent"
    by (simp_all add: t)
  have b: "cleanup_tmp_dir (patcher0\<lparr>tmp_dir := [''elsewhere'']\<rparr>) fs0 = (None, fs0)"
    using n cleanup_tmp_dir_spec [of fs0 "patcher0\<lparr>tmp_dir := [''elsewhere'']\<rparr>"] by blast
  from d f r e a2 n b show ?thesis by blast
qed

section \<open>The stages of one run\<close>

text \<open>
  Claim C7 says that a run whose extraction fails for a missing source returns an error
  result. The code does not do this for \<^verbatim>\<open>odex_apk("...apk")\<close> in the working directory
  \<open>fs0\<close>, where no such file exists. The extraction raises its \<^verbatim>\<open>FileNotFoundError\<close>,
  the \<^verbatim>\<open>except\<close> clause makes the error result, and the compiler is not started. But the
  stem of the path is \<^verbatim>\<open>..\<close>, so the scratch sub-directory of the run is the directory
  above the scratch root, the working directory: the \<^verbatim>\<open>finally\<close> block finds that it
  is a directory, \<^verbatim>\<open>shutil.rmtree\<close> removes what the working directory holds and then
  raises, and this exception leaves \<^verbatim>\<open>odex_apk\<close> in place of the error result.
\<close>

theorem odex_apk_finally_raises:
  "\<not> is_file fs0 (Path ''...apk'')
   \<and> fst (extract_dex patcher0 (Path ''...apk'') fs0)
        = Inl (FileNotFoundError ''APK file not found: ...apk'')
   \<and> returned (fst (odex_try dex2oat_ok patcher0 (Str ''...apk'') (Path ''...apk'') None PyNone w0))
        ''status'' = Some (Str ''error'')
   \<and> returned (fst (odex_try dex2oat_ok patcher0 (Str ''...apk'') (Path ''...apk'') None PyNone w0))
        ''message'' = Some (Str ''APK file not found: ...apk'')
   \<and> joinpath (tmp_dir patcher0) (stem (Path ''...apk'')) = [''tmp_odex_patcher'', ''..'']
   \<and> raised (fst odex_run_dots)
        = Some (FileNotFoundError (errno2 [''tmp_odex_patcher'', ''..'']))
   \<and> calls (snd odex_run_dots) = [Call_extract_dex (Path ''...apk'')]
   \<and> is_file fs0 (Path ''app.apk'')
   \<and> \<not> is_file (files (snd odex_run_dots)) (Path ''app.apk'')"
  by code_simp

section \<open>What a run leaves in the scratch root\<close>

text \<open>
  Claim C1, at the run of \<^verbatim>\<open>odex_apk("app.apk")\<close> in the working directory \<open>fs0\<close> with
  a compiler that succeeds. The run returns a success result and no exception, and its
  scratch sub-directory is gone; but the oat and the vdex file are still in the scratch
  root, because the frame of \<^verbatim>\<open>odex_apk\<close> has no local variables \<^verbatim>\<open>oat_path\<close> and
  \<^verbatim>\<open>vdex_path\<close> for the \<^verbatim>\<open>finally\<close> block to find.
\<close>

theorem odex_apk_leaves_artifacts:
  "raised (fst odex_run0) = None
   \<and> returned (fst odex_run0) ''status'' = Some (Str ''success'')
   \<and> \<not> is_dir (files (snd odex_run0)) (joinpath (tmp_dir patcher0) (stem (Path ''app.apk'')))
   \<and> is_file (files (snd odex_run0)) (oat_output_path patcher0 (Path ''app.apk''))
   \<and> is_file (files (snd odex_run0)) (vdex_output_path patcher0 (Path ''app.apk''))"
  by code_simp

section \<open>The strip operation with an output directory\<close>

text \<open>
  Claim C6, at the call \<^verbatim>\<open>deodex_apk("nodex.apk", "out")\<close> in the working directory
  \<open>fs0\<close>. The archive is a valid zip without \<^verbatim>\<open>classes.dex\<close>, and the output directory
  is a string, as the signature declares it and as \<^verbatim>\<open>process_files\<close> passes it on. The
  call raises an \<^verbatim>\<open>AttributeError\<close> instead of returning a warning, and no output
  archive is written.
\<close>

theorem deodex_apk_str_output_dir:
  "open_zip fs0 (Path ''nodex.apk'') = Inr nodex_zip
   \<and> ''classes.dex'' \<notin> set (namelist nodex_zip)
   \<and> raised (fst (deodex_apk (Str ''nodex.apk'') (PyStr ''out'') fs0)) = Some AttributeError
   \<and> \<not> is_file (snd (deodex_apk (Str ''nodex.apk'') (PyStr ''out'') fs0))
          (joinpath (Path ''out'') ''nodex-deodexed.apk'')"
  by code_simp

section \<open>Failure isolation in a batch\<close>

text \<open>
  Claim C5 says that the batch of a valid archive with \<^verbatim>\<open>classes.dex\<close>, an archive
  without it and a path that does not exist gives three results and no exception. The
  code does not do this for the batch \<^verbatim>\<open>app.apk\<close>, \<^verbatim>\<open>app.oat.apk\<close>, \<^verbatim>\<open>missing.apk\<close> run
  by a patcher with one worker and a compiler that succeeds. The first run leaves the
  file \<^verbatim>\<open>app.oat\<close> in the scratch root; the scratch sub-directory of the second run has
  this very path, so making it raises a \<^verbatim>\<open>FileExistsError\<close>, which \<^verbatim>\<open>odex_apk\<close> does not
  catch and \<^verbatim>\<open>future.result()\<close> raises again in \<^verbatim>\<open>process_files\<close>.
\<close>

theorem process_files_exception_escapes:
  "num_threads patcher1 = 1
   \<and> open_zip fs_batch (Path ''app.apk'') = Inr app_zip
   \<and> ''classes.dex'' \<in> set (namelist app_zip)
   \<and> open_zip fs_batch (Path ''app.oat.apk'') = Inr nodex_zip
   \<and> ''classes.dex'' \<notin> set (namelist nodex_zip)
   \<and> \<not> is_file fs_batch (Path ''missing.apk'')
   \<and> returned (fst (odex_apk dex2oat_ok patcher1 (Str ''app.apk'') None PyNone
                      \<lparr>files = fs_batch, calls = []\<rparr>)) ''status'' = Some (Str ''success'')
   \<and> oat_output_path patcher1 (Path ''app.apk'')
        = joinpath (tmp_dir patcher1) (stem (Path ''app.oat.apk''))
   \<and> raised (fst batch_run) = Some FileExistsError"
  by code_simp

section \<open>Facts about the copy loops and the archive names\<close>

lemma filter_name_absent:
  "nm \<notin> set (map filename xs) \<Longrightarrow> filter (\<lambda>y. filename y = nm) xs = []"
  by (induction xs) auto

lemma zip_read_distinct:
  "distinct (namelist es) \<Longrightarrow> e \<in> set es \<Longrightarrow> zip_read es (filename e) = Some (data e)"
proof -
  assume d: "distinct (namelist es)" and m: "e \<in> set es"
  have "filter (\<lambda>x. filename x = filename e) es = [e]"
    using d m
  proof (induction es)
    case Nil
    then show ?case by simp
  next
    case (Cons x xs)
    show ?case
    proof (cases "x = e")
      case True
      have "filename e \<notin> set (map filename xs)"
        using Cons.prems(1) True by (simp add: namelist_def)
      then have "filter (\<lambda>y. filename y = filename e) xs = []"
        by (rule filter_name_absent)
      then show ?thesis using True by simp
    next
      case False
      then have "e \<in> set xs" using Cons.prems(2) by simp
      moreover have "filename x \<noteq> filename e"
        using Cons.prems(1) \<open>e \<in> set xs\<close> by (auto simp: namelist_def)
      ultimately show ?thesis using Cons by (simp add: namelist_def)
    qed
  qed
  then show ?thesis by (simp add: zip_read_def)
qed

lemma odex_loop_copies:
  "(\<And>item. item \<in> set items \<Longrightarrow> zip_read src (filename item) = Some (data item)) \<Longrightarrow>
   odex_loop src items target = (None, target @ filter copied_odex items)"
  by (induction items arbitrary: target) (auto simp: copied_odex_def)

lemma deodex_loop_copies:
  "(\<And>item. item \<in> set items \<Longrightarrow> copied_strip item \<Longrightarrow>
       zip_read src (filename item) = Some (data item)) \<Longrightarrow>
   deodex_loop src items (target, found) =
     (None, target @ filter copied_strip items, found \<or> ''classes.dex'' \<in> set (namelist items))"
  by (induction items arbitrary: target found) (auto simp: copied_strip_def namelist_def)

lemma split_on_sep: "c \<notin> set a \<Longrightarrow> split_on c (a @ c # b) = a # split_on c b"
  by (induction a) (auto split: list.splits)

lemma normpath_shard:
  assumes "CHR ''/'' \<notin> set (c # cs)" "c # cs \<noteq> ''.''" "c # cs \<noteq> ''..''"
  shows "normpath (''oat/'' @ [c] @ ''/'' @ c # cs) =
           (if c = CHR ''.'' then ''oat/'' @ c # cs else ''oat/'' @ [c] @ ''/'' @ c # cs)"
proof -
  have c: "c \<noteq> CHR ''/''" using assms(1) by auto
  have "split_on CHR ''/'' (''oat'' @ CHR ''/'' # ([c] @ CHR ''/'' # (c # cs))) =
          ''oat'' # split_on CHR ''/'' ([c] @ CHR ''/'' # (c # cs))"
    by (rule split_on_sep) simp
  also have "split_on CHR ''/'' ([c] @ CHR ''/'' # (c # cs)) = [c] # split_on CHR ''/'' (c # cs)"
    by (rule split_on_sep) (use c in simp)
  also have "split_on CHR ''/'' (c # cs) = [c # cs]"
    using assms(1) by (rule split_on_no_sep)
  finally have sp: "split_on CHR ''/'' (''oat/'' @ [c] @ ''/'' @ c # cs) = [''oat'', [c], c # cs]"
    by simp
  show ?thesis
    unfolding normpath_def sp using assms(2,3) by (simp add: Let_def)
qed

lemma shard_name_startswith:
  assumes "CHR ''/'' \<notin> set (name p)" "length (name p) \<ge> 3" "shard_name p = Inr arc"
  shows "startswith (normpath arc) ''oat/''"
proof -
  obtain c cs where n: "name p = c # cs" using assms(2) by (cases "name p") auto
  then have arc: "arc = ''oat/'' @ [c] @ ''/'' @ c # cs"
    using assms(3) by (simp add: shard_name_def)
  have "c # cs \<noteq> ''.''" "c # cs \<noteq> ''..''" using assms(2) n by auto
  then have "normpath arc =
      (if c = CHR ''.'' then ''oat/'' @ c # cs else ''oat/'' @ [c] @ ''/'' @ c # cs)"
    unfolding arc using assms(1) n by (intro normpath_shard) simp_all
  then show ?thesis by (simp add: startswith_def)
qed

lemma startswith_append: "startswith s pre \<Longrightarrow> startswith (s @ t) pre"
proof -
  assume a: "startswith s pre"
  then have "length (take (length pre) s) = length pre" by (simp add: startswith_def)
  then have "length pre \<le> length s" by simp
  then show ?thesis using a by (simp add: startswith_def)
qed

lemma zip_write_startswith:
  assumes "CHR ''/'' \<notin> set (name p)" "length (name p) \<ge> 3" "shard_name p = Inr arc"
      and "zip_write fs q arc = Inr e"
  shows "startswith (filename e) ''oat/''"
proof -
  have "startswith (normpath arc) ''oat/''" using assms(1-3) by (rule shard_name_startswith)
  moreover have "filename e = normpath arc \<or> filename e = normpath arc @ ''/''"
    using assms(4) by (auto simp: zip_write_def split: lookup.splits node.splits)
  ultimately show ?thesis by (auto intro: startswith_append)
qed

section \<open>Facts about the repackager and the strip operation\<close>

lemma open_zip_stat: "open_zip fs p = Inr es \<longleftrightarrow> stat fs p = Found (File (Zip es))"
  by (auto simp: open_zip_def split: lookup.splits node.splits content.splits)

lemma mkdir_preserves_open_zip:
  "mkdir fs d = Inr fs1 \<Longrightarrow> open_zip fs p = Inr es \<Longrightarrow> open_zip fs1 p = Inr es"
  unfolding open_zip_stat by (rule mkdir_preserves_Found)

lemma package_except_status:
  "package_except p e = Inr r \<Longrightarrow> r ''status'' = Some (Str ''error'')"
  by (auto simp: package_except_def split: exn.splits)

lemma deodex_except_status:
  "deodex_except a e = Inr r \<Longrightarrow> r ''status'' = Some (Str ''error'')"
  by (auto simp: deodex_except_def split: if_splits)

lemma package_odex_success:
  assumes run: "package_odex orig oat vdex od fs = (Inr r, fs')"
      and ok: "r ''status'' = Some (Str ''success'')"
      and src: "open_zip fs orig = Inr es"
  shows "\<exists>fsw target.
           package_body fsw es oat vdex = (None, target)
         \<and> r ''output_path'' =
             Some (PathVal (joinpath (case od of None \<Rightarrow> Path ''.'' | Some d \<Rightarrow> d)
                                     (stem orig @ ''-odexed.apk'')))
         \<and> stat fs' (joinpath (case od of None \<Rightarrow> Path ''.'' | Some d \<Rightarrow> d)
                                (stem orig @ ''-odexed.apk''))
             = Found (File (Zip target))"
proof -
  let ?dir = "case od of None \<Rightarrow> Path ''.'' | Some d \<Rightarrow> d"
  let ?out = "joinpath ?dir (stem orig @ ''-odexed.apk'')"
  obtain fs1 where mk: "mkdir fs ?dir = Inr fs1"
    using run by (cases "mkdir fs ?dir") (auto simp: package_odex_def Let_def)
  have z: "open_zip fs1 orig = Inr es" using mk src by (rule mkdir_preserves_open_zip)
  have ne: "Str ''error'' \<noteq> Str ''success''" by simp
  obtain fs2 where wb: "open_wb fs1 ?out (Zip []) = Inr fs2"
    using run mk z ok ne
    by (cases "open_wb fs1 ?out (Zip [])")
       (auto simp: package_odex_def Let_def dest!: package_except_status)
  obtain raised target where pb: "package_body fs2 es oat vdex = (raised, target)"
    by (cases "package_body fs2 es oat vdex") auto
  have rn: "raised = None"
    using run mk z wb pb ok ne
    by (cases raised) (auto simp: package_odex_def Let_def dest!: package_except_status)
  have r: "r ''output_path'' = Some (PathVal ?out)" and f: "fs' = put fs2 ?out (Zip target)"
    using run mk z wb pb rn by (auto simp: package_odex_def Let_def)
  have "stat fs' ?out = Found (File (Zip target))"
    unfolding f using wb by (rule open_wb_content)
  then show ?thesis using pb rn r by blast
qed

lemma package_body_entries:
  assumes "package_body fsw es oat vdex = (None, target)" "distinct (namelist es)"
  shows "\<exists>arc1 arc2 a b.
           target = filter copied_odex es @ [a, b]
         \<and> shard_name oat = Inr arc1 \<and> zip_write fsw oat arc1 = Inr a
         \<and> shard_name vdex = Inr arc2 \<and> zip_write fsw vdex arc2 = Inr b"
proof -
  have "odex_loop es es [] = (None, [] @ filter copied_odex es)"
    using assms(2) by (intro odex_loop_copies zip_read_distinct)
  then show ?thesis
    using assms(1) by (auto simp: package_body_def split: sum.splits)
qed

lemma deodex_apk_success:
  assumes run: "deodex_apk a od fs = (Inr r, fs')"
      and ok: "r ''status'' \<noteq> Some (Str ''error'')"
      and pa: "to_Path a = Inr f"
      and src: "open_zip fs f = Inr es"
  shows "\<exists>dir target found.
           deodex_output_dir od = Inr dir
         \<and> deodex_loop es es ([], False) = (None, target, found)
         \<and> r ''status'' = Some (Str (if found then ''success'' else ''warning''))
         \<and> r ''output_path'' = Some (PathVal (joinpath dir (stem f @ ''-deodexed.apk'')))
         \<and> stat fs' (joinpath dir (stem f @ ''-deodexed.apk'')) = Found (File (Zip target))"
proof -
  have isf: "is_file fs f" using src by (simp add: open_zip_stat is_file_def)
  obtain dir where od: "deodex_output_dir od = Inr dir"
    using run pa isf by (cases "deodex_output_dir od") (auto simp: deodex_apk_def)
  let ?out = "joinpath dir (stem f @ ''-deodexed.apk'')"
  obtain fs1 where mk: "mkdir fs dir = Inr fs1"
    using run pa isf od by (cases "mkdir fs dir") (auto simp: deodex_apk_def)
  have z: "open_zip fs1 f = Inr es" using mk src by (rule mkdir_preserves_open_zip)
  obtain fs2 where wb: "open_wb fs1 ?out (Zip []) = Inr fs2"
    using run pa isf od mk z ok
    by (cases "open_wb fs1 ?out (Zip [])")
       (auto simp: deodex_apk_def Let_def dest!: deodex_except_status)
  obtain raised target found where lp: "deodex_loop es es ([], False) = (raised, target, found)"
    by (cases "deodex_loop es es ([], False)") auto
  have rn: "raised = None"
    using run pa isf od mk z wb lp ok
    by (cases raised) (auto simp: deodex_apk_def Let_def dest!: deodex_except_status)
  have r: "r ''status'' = Some (Str (if found then ''success'' else ''warning''))"
          "r ''output_path'' = Some (PathVal ?out)"
      and f: "fs' = put fs2 ?out (Zip target)"
    using run pa isf od mk z wb lp rn by (auto simp: deodex_apk_def Let_def split: if_splits)
  have "stat fs' ?out = Found (File (Zip target))"
    unfolding f using wb by (rule open_wb_content)
  then show ?thesis using od lp rn r by blast
qed

lemma name_snoc: "x \<noteq> ''/'' \<Longrightarrow> name (p @ [x]) = x"
  by (simp add: name_def)

lemma artifact_name:
  assumes "CHR ''/'' \<notin> set st" "CHR ''/'' \<notin> set ext" "length ext \<ge> 3"
  shows "CHR ''/'' \<notin> set (name (joinpath p (st @ ext))) \<and> length (name (joinpath p (st @ ext))) \<ge> 3"
proof -
  have j: "joinpath p (st @ ext) = p @ [st @ ext]"
    using assms by (intro artifact_name_simple) simp_all
  have "st @ ext \<noteq> ''/''"
  proof
    assume "st @ ext = ''/''"
    then have "length (st @ ext) = 1" by simp
    then show False using assms(3) by simp
  qed
  then have "name (joinpath p (st @ ext)) = st @ ext" unfolding j by (rule name_snoc)
  then show ?thesis using assms by simp
qed

lemma oat_name: "CHR ''/'' \<notin> set (name (oat_output_path self (Path s)))
                 \<and> length (name (oat_output_path self (Path s))) \<ge> 3"
  unfolding oat_output_path_def by (rule artifact_name) (simp_all add: stem_Path_no_sep)

lemma vdex_name: "CHR ''/'' \<notin> set (name (vdex_output_path self (Path s)))
                 \<and> length (name (vdex_output_path self (Path s))) \<ge> 3"
  unfolding vdex_output_path_def by (rule artifact_name) (simp_all add: stem_Path_no_sep)

lemma startswith_oat_not_dex: "startswith nm ''oat/'' \<Longrightarrow> nm \<noteq> ''classes.dex''"
  by (auto simp: startswith_def)

lemma zip_read_append_oat:
  assumes "distinct (namelist kept)" "item \<in> set kept" "\<not> startswith (filename item) ''oat/''"
      and "startswith (filename a) ''oat/''" "startswith (filename b) ''oat/''"
  shows "zip_read (kept @ [a, b]) (filename item) = Some (data item)"
proof -
  have "zip_read kept (filename item) = Some (data item)"
    using assms(1,2) by (rule zip_read_distinct)
  moreover have "filename a \<noteq> filename item" "filename b \<noteq> filename item"
    using assms(3-5) by auto
  ultimately show ?thesis by (simp add: zip_read_def split: list.splits)
qed

lemma strip_after_odex:
  assumes dist: "distinct (namelist es)"
      and nooat: "\<forall>e\<in>set es. \<not> startswith (filename e) ''oat/''"
      and a: "startswith (filename a) ''oat/''" and b: "startswith (filename b) ''oat/''"
  shows "deodex_loop (filter copied_odex es @ [a, b]) (filter copied_odex es @ [a, b]) ([], False)
           = (None, filter copied_odex es, False)"
proof -
  let ?kept = "filter copied_odex es"
  have dk: "distinct (namelist ?kept)"
    using dist by (simp add: namelist_def distinct_map_filter)
  have rd: "zip_read (?kept @ [a, b]) (filename item) = Some (data item)"
    if "item \<in> set (?kept @ [a, b])" "copied_strip item" for item
  proof -
    have "item \<in> set ?kept" using that a b by (auto simp: copied_strip_def)
    moreover have "\<not> startswith (filename item) ''oat/''" using that(2) by (simp add: copied_strip_def)
    ultimately show ?thesis using dk a b by (intro zip_read_append_oat)
  qed
  have "deodex_loop (?kept @ [a, b]) (?kept @ [a, b]) ([], False) =
          (None, [] @ filter copied_strip (?kept @ [a, b]),
           False \<or> ''classes.dex'' \<in> set (namelist (?kept @ [a, b])))"
    using rd by (rule deodex_loop_copies)
  moreover have "filter copied_strip (?kept @ [a, b]) = ?kept"
  proof -
    have "\<forall>x\<in>set ?kept. copied_strip x"
      using nooat by (simp add: copied_strip_def copied_odex_def)
    then have "filter copied_strip ?kept = ?kept"
      by (simp only: filter_id_conv)
    then show ?thesis using a b by (simp add: copied_strip_def)
  qed
  moreover have "''classes.dex'' \<notin> set (namelist (?kept @ [a, b]))"
    using startswith_oat_not_dex[OF a] startswith_oat_not_dex[OF b]
    by (auto simp: namelist_def copied_odex_def)
  ultimately show ?thesis by simp
qed

lemma Inr_of_raised: "raised x = None \<Longrightarrow> \<exists>r. x = Inr r"
  by (cases x) (auto simp: raised_def)

section \<open>Entry fidelity\<close>

text \<open>
  For a source archive whose entry names are pairwise distinct both loops copy
  faithfully. When \<^verbatim>\<open>_package_odex\<close> returns a success result, the output archive
  holds the source entries other than \<^verbatim>\<open>classes.dex\<close>, each with its name, compression
  method and payload and in the source order, followed by two artifact entries. When
  \<^verbatim>\<open>deodex_apk\<close> returns a result that is not an error, the output archive holds exactly
  the source entries that are neither \<^verbatim>\<open>classes.dex\<close> nor below \<^verbatim>\<open>oat/\<close>, unchanged
  and in order.
\<close>

lemma entry_fidelity_distinct_names:
  "(\<forall>r fs' es. package_odex orig oat vdex od fs = (Inr r, fs') \<longrightarrow>
        r ''status'' = Some (Str ''success'') \<longrightarrow>
        open_zip fs orig = Inr es \<longrightarrow> distinct (namelist es) \<longrightarrow>
        (\<exists>a b. stat fs' (joinpath (case od of None \<Rightarrow> Path ''.'' | Some d \<Rightarrow> d)
                                   (stem orig @ ''-odexed.apk''))
                  = Found (File (Zip (filter copied_odex es @ [a, b])))))
   \<and> (\<forall>r fs' f es dir. deodex_apk apk od2 fs = (Inr r, fs') \<longrightarrow>
        r ''status'' \<noteq> Some (Str ''error'') \<longrightarrow>
        to_Path apk = Inr f \<longrightarrow> open_zip fs f = Inr es \<longrightarrow> distinct (namelist es) \<longrightarrow>
        deodex_output_dir od2 = Inr dir \<longrightarrow>
        stat fs' (joinpath dir (stem f @ ''-deodexed.apk''))
          = Found (File (Zip (filter copied_strip es))))"
proof (intro conjI allI impI)
  fix r fs' es
  assume pk: "package_odex orig oat vdex od fs = (Inr r, fs')"
     and ok: "r ''status'' = Some (Str ''success'')"
     and src: "open_zip fs orig = Inr es" and dist: "distinct (namelist es)"
  obtain fsw target where pb: "package_body fsw es oat vdex = (None, target)"
    and s1: "stat fs' (joinpath (case od of None \<Rightarrow> Path ''.'' | Some d \<Rightarrow> d)
                                (stem orig @ ''-odexed.apk'')) = Found (File (Zip target))"
    using package_odex_success[OF pk ok src] by blast
  obtain a b where "target = filter copied_odex es @ [a, b]"
    using package_body_entries[OF pb dist] by blast
  then show "\<exists>a b. stat fs' (joinpath (case od of None \<Rightarrow> Path ''.'' | Some d \<Rightarrow> d)
                                   (stem orig @ ''-odexed.apk''))
                  = Found (File (Zip (filter copied_odex es @ [a, b])))"
    using s1 by blast
next
  fix r fs' f es dir
  assume st: "deodex_apk apk od2 fs = (Inr r, fs')"
     and ok: "r ''status'' \<noteq> Some (Str ''error'')"
     and p: "to_Path apk = Inr f" and src: "open_zip fs f = Inr es"
     and dist: "distinct (namelist es)" and od: "deodex_output_dir od2 = Inr dir"
  obtain dir' target found where
        od': "deodex_output_dir od2 = Inr dir'"
    and lp: "deodex_loop es es ([], False) = (None, target, found)"
    and s2: "stat fs' (joinpath dir' (stem f @ ''-deodexed.apk'')) = Found (File (Zip target))"
    using deodex_apk_success[OF st ok p src] by blast
  have "deodex_loop es es ([], False) =
          (None, [] @ filter copied_strip es, False \<or> ''classes.dex'' \<in> set (namelist es))"
    using dist by (intro deodex_loop_copies zip_read_distinct)
  then have "target = filter copied_strip es" using lp by simp
  moreover have "dir' = dir" using od od' by simp
  ultimately show "stat fs' (joinpath dir (stem f @ ''-deodexed.apk''))
          = Found (File (Zip (filter copied_strip es)))"
    using s2 by simp
qed

text \<open>
  Claim C4 says that every copied entry has the name, payload and compression method of
  its source entry. The code does not do this for an archive with two entries of one
  name: both loops read the payload by name, which finds the last entry of that name,
  and write it under the \<^verbatim>\<open>ZipInfo\<close> of the entry at hand. For \<^verbatim>\<open>dup.apk\<close> both calls
  succeed, and the first copy of \<^verbatim>\<open>res/a.txt\<close> in either output is stored like the first
  source entry but has the payload of the second; the source has no such entry.
\<close>

theorem entry_fidelity_duplicate_names:
  "open_zip fs_dup (Path ''dup.apk'') = Inr dup_zip
   \<and> ZEntry ''res/a.txt'' ZIP_STORED (Blob ''two'') \<notin> set dup_zip
   \<and> returned (fst (deodex_apk (Str ''dup.apk'') PyNone fs_dup)) ''status'' = Some (Str ''success'')
   \<and> stat (snd (deodex_apk (Str ''dup.apk'') PyNone fs_dup)) (Path ''dup-deodexed.apk'') =
        Found (File (Zip [ZEntry ''res/a.txt'' ZIP_STORED (Blob ''two''),
                          ZEntry ''res/a.txt'' ZIP_DEFLATED (Blob ''two'')]))
   \<and> returned (fst (package_odex (Path ''dup.apk'') (oat_output_path patcher0 (Path ''dup.apk''))
                      (vdex_output_path patcher0 (Path ''dup.apk'')) None fs_dup)) ''status'' =
        Some (Str ''success'')
   \<and> stat (snd (package_odex (Path ''dup.apk'') (oat_output_path patcher0 (Path ''dup.apk''))
                      (vdex_output_path patcher0 (Path ''dup.apk'')) None fs_dup))
          (Path ''dup-odexed.apk'') =
        Found (File (Zip [ZEntry ''res/a.txt'' ZIP_STORED (Blob ''two''),
                          ZEntry ''res/a.txt'' ZIP_DEFLATED (Blob ''two''),
                          ZEntry ''oat/d/dup.oat'' ZIP_DEFLATED (Blob ''oat''),
                          ZEntry ''oat/d/dup.vdex'' ZIP_DEFLATED (Blob ''vdex'')]))"
  by code_simp

section \<open>Stripping an odexed archive\<close>

text \<open>
  Claim C3, amended: for a source archive with \<^verbatim>\<open>classes.dex\<close>, pairwise distinct entry
  names and no entry name that begins with \<^verbatim>\<open>oat/\<close>, repackaged with the artifact paths
  that the compile stage computes. If \<^verbatim>\<open>_package_odex\<close> returns a success result and
  \<^verbatim>\<open>deodex_apk\<close> on its output returns a result that is not an error, then the odexed
  archive is the source entries other than \<^verbatim>\<open>classes.dex\<close> followed by two entries
  below \<^verbatim>\<open>oat/\<close>, the strip returns a warning (the odexed archive has no
  \<^verbatim>\<open>classes.dex\<close>), and the stripped archive is exactly the source entries other than
  \<^verbatim>\<open>classes.dex\<close>.
\<close>

theorem odex_strip_round_trip:
  assumes pk: "package_odex (Path s) (oat_output_path self (Path s))
                 (vdex_output_path self (Path s)) od fs = (Inr r, fs1)"
      and ok: "r ''status'' = Some (Str ''success'')"
      and out: "r ''output_path'' = Some (PathVal out)"
      and src: "open_zip fs (Path s) = Inr es"
      and dex: "''classes.dex'' \<in> set (namelist es)"
      and dist: "distinct (namelist es)"
      and nooat: "\<forall>e\<in>set es. \<not> startswith (filename e) ''oat/''"
      and st: "deodex_apk (PathVal out) od2 fs1 = (Inr r2, fs2)"
      and ok2: "r2 ''status'' \<noteq> Some (Str ''error'')"
      and out2: "r2 ''output_path'' = Some (PathVal out2)"
  shows "\<exists>a b. stat fs1 out = Found (File (Zip (filter copied_odex es @ [a, b])))
             \<and> startswith (filename a) ''oat/'' \<and> startswith (filename b) ''oat/''
             \<and> r2 ''status'' = Some (Str ''warning'')
             \<and> stat fs2 out2 = Found (File (Zip (filter copied_odex es)))"
proof -
  let ?oat = "oat_output_path self (Path s)"
  let ?vdex = "vdex_output_path self (Path s)"
  obtain fsw target where pb: "package_body fsw es ?oat ?vdex = (None, target)"
    and s1: "stat fs1 out = Found (File (Zip target))"
    using package_odex_success[OF pk ok src] out by auto
  obtain arc1 arc2 a b where t: "target = filter copied_odex es @ [a, b]"
    and w1: "shard_name ?oat = Inr arc1" "zip_write fsw ?oat arc1 = Inr a"
    and w2: "shard_name ?vdex = Inr arc2" "zip_write fsw ?vdex arc2 = Inr b"
    using package_body_entries[OF pb dist] by blast
  have a: "startswith (filename a) ''oat/''"
    using oat_name[of self s] w1 by (blast intro: zip_write_startswith)
  have b: "startswith (filename b) ''oat/''"
    using vdex_name[of self s] w2 by (blast intro: zip_write_startswith)
  have z: "open_zip fs1 out = Inr target" using s1 by (simp add: open_zip_stat)
  have p: "to_Path (PathVal out) = Inr out" by (simp add: to_Path_def)
  obtain dir target2 found where
        lp: "deodex_loop target target ([], False) = (None, target2, found)"
    and rs: "r2 ''status'' = Some (Str (if found then ''success'' else ''warning''))"
    and ro: "r2 ''output_path'' = Some (PathVal (joinpath dir (stem out @ ''-deodexed.apk'')))"
    and s2: "stat fs2 (joinpath dir (stem out @ ''-deodexed.apk'')) = Found (File (Zip target2))"
    using deodex_apk_success[OF st ok2 p z] by blast
  have "deodex_loop target target ([], False) = (None, filter copied_odex es, False)"
    unfolding t using dist nooat a b by (rule strip_after_odex)
  then have "target2 = filter copied_odex es" "found = False" using lp by simp_all
  moreover have "out2 = joinpath dir (stem out @ ''-deodexed.apk'')" using ro out2 by simp
  ultimately show ?thesis using s1 t a b rs s2 by auto
qed

theorem odex_strip_round_trip_witness:
  "\<exists>a b. stat (snd package_run0) (Path ''app-odexed.apk'') =
           Found (File (Zip ([ZEntry ''res/a.png'' ZIP_STORED (Blob ''png'')] @ [a, b])))
       \<and> startswith (filename a) ''oat/'' \<and> startswith (filename b) ''oat/''
       \<and> returned (fst strip_run0) ''status'' = Some (Str ''warning'')
       \<and> stat (snd strip_run0) (Path ''app-odexed-deodexed.apk'') =
           Found (File (Zip [ZEntry ''res/a.png'' ZIP_STORED (Blob ''png'')]))"
proof -
  let ?orig = "Path ''app.apk''"
  let ?oat = "oat_output_path patcher0 ?orig"
  let ?vdex = "vdex_output_path patcher0 ?orig"
  have "raised (fst package_run0) = None" by code_simp
  then obtain r where r: "fst package_run0 = Inr r" using Inr_of_raised by blast
  then have pk: "package_odex (Path ''app.apk'') (oat_output_path patcher0 (Path ''app.apk''))
                 (vdex_output_path patcher0 (Path ''app.apk'')) None fs_compiled
                 = (Inr r, snd package_run0)"
    by (metis package_run0_def prod.collapse)
  have "returned (fst package_run0) ''status'' = Some (Str ''success'')" by code_simp
  then have ok: "r ''status'' = Some (Str ''success'')" using r by (simp add: returned_def)
  have "returned (fst package_run0) ''output_path'' = Some (PathVal (Path ''app-odexed.apk''))"
    by code_simp
  then have out: "r ''output_path'' = Some (PathVal (Path ''app-odexed.apk''))"
    using r by (simp add: returned_def)
  have src: "open_zip fs_compiled (Path ''app.apk'') = Inr app_zip" by code_simp
  have dex: "''classes.dex'' \<in> set (namelist app_zip)" by code_simp
  have dist: "distinct (namelist app_zip)" by code_simp
  have nooat: "\<forall>e\<in>set app_zip. \<not> startswith (filename e) ''oat/''" by code_simp
  have "raised (fst strip_run0) = None" by code_simp
  then obtain r2 where r2: "fst strip_run0 = Inr r2" using Inr_of_raised by blast
  then have st: "deodex_apk (PathVal (Path ''app-odexed.apk'')) PyNone (snd package_run0)
                   = (Inr r2, snd strip_run0)"
    by (metis strip_run0_def prod.collapse)
  have w: "returned (fst strip_run0) ''status'' = Some (Str ''warning'')" by code_simp
  then have ok2: "r2 ''status'' \<noteq> Some (Str ''error'')" using r2 by (simp add: returned_def)
  have "returned (fst strip_run0) ''output_path'' =
          Some (PathVal (Path ''app-odexed-deodexed.apk''))" by code_simp
  then have out2: "r2 ''output_path'' = Some (PathVal (Path ''app-odexed-deodexed.apk''))"
    using r2 by (simp add: returned_def)
  have k1: "filter copied_odex app_zip = [ZEntry ''res/a.png'' ZIP_STORED (Blob ''png'')]"
    by code_simp
  from odex_strip_round_trip [OF pk ok out src dex dist nooat st ok2 out2]
  show ?thesis using w unfolding k1 by blast
qed

text \<open>
  Claim C3 as stated fails for an archive that has an entry below \<^verbatim>\<open>oat/\<close> of its own:
  the strip removes every name that begins with \<^verbatim>\<open>oat/\<close>, so it removes three entries
  of the odexed archive, and the result lacks an entry of the original.
\<close>

theorem round_trip_counterexample:
  "returned (fst odex_run_pre) ''status'' = Some (Str ''success'')
   \<and> returned (fst odex_run_pre) ''output_path'' = Some (PathVal (Path ''pre-odexed.apk''))
   \<and> ''classes.dex'' \<in> set (namelist pre_zip)
   \<and> filter copied_odex pre_zip =
        [ZEntry ''res/a.png'' ZIP_STORED (Blob ''png''),
         ZEntry ''oat/arm64/base.odex'' ZIP_STORED (Blob ''odex'')]
   \<and> stat (files (snd odex_run_pre)) (Path ''pre-odexed.apk'') =
        Found (File (Zip [ZEntry ''res/a.png'' ZIP_STORED (Blob ''png''),
                          ZEntry ''oat/arm64/base.odex'' ZIP_STORED (Blob ''odex''),
                          ZEntry ''oat/p/pre.oat'' ZIP_DEFLATED (Blob ''oat''),
                          ZEntry ''oat/p/pre.vdex'' ZIP_DEFLATED (Blob ''vdex'')]))
   \<and> returned (fst strip_run_pre) ''status'' = Some (Str ''warning'')
   \<and> stat (snd strip_run_pre) (Path ''pre-odexed-deodexed.apk'') =
        Found (File (Zip [ZEntry ''res/a.png'' ZIP_STORED (Blob ''png'')]))"
  by code_simp

section \<open>What the results carry\<close>





















end
